theory Spec2Isabelle
  imports Main
begin

section \<open>JavaScript values\<close>

text \<open>
  The program (index.js) works on the values that \<^verbatim>\<open>JSON.parse\<close> returns and on the
  objects it builds from them. A value is \<^verbatim>\<open>undefined\<close>, \<^verbatim>\<open>null\<close>, a boolean, a
  number, a string, an array or an object. Numbers are the integers (the counters and
  epoch values the program meets, below \<open>10\<^sup>2\<^sup>1\<close> in magnitude, which print in plain
  decimal); an object is the list of its own properties in insertion order, each key
  held once.
\<close>

datatype jsval =
    JUndefined
  | JNull
  | JBool bool
  | JNum int
  | JStr string
  | JArr "jsval list"
  | JObj "(string \<times> jsval) list"

datatype error =
    DnsLookupFailed
  | HttpsRequestFailed
  | JsonParseFailed
  | ApiRequestFailed nat
  | TypeError
  | RangeError
  | WriteFailed

text \<open>Truthiness, as \<^verbatim>\<open>||\<close>, \<^verbatim>\<open>&&\<close> and \<^verbatim>\<open>? :\<close> test it.\<close>

fun truthy :: "jsval \<Rightarrow> bool" where
  "truthy JUndefined = False"
| "truthy JNull = False"
| "truthy (JBool b) = b"
| "truthy (JNum n) = (n \<noteq> 0)"
| "truthy (JStr s) = (s \<noteq> [])"
| "truthy (JArr xs) = True"
| "truthy (JObj kvs) = True"

text \<open>\<^verbatim>\<open>a || b\<close>\<close>

definition js_or :: "jsval \<Rightarrow> jsval \<Rightarrow> jsval" where
  "js_or a b = (if truthy a then a else b)"

text \<open>
  Property read \<^verbatim>\<open>v.k\<close> for the property names the program uses (none of them is a
  property of a string, number, boolean or array prototype): a TypeError on
  \<^verbatim>\<open>undefined\<close> and \<^verbatim>\<open>null\<close>, the own property of an object, \<^verbatim>\<open>undefined\<close>
  otherwise.
\<close>

fun get_prop :: "jsval \<Rightarrow> string \<Rightarrow> error + jsval" where
  "get_prop JUndefined k = Inl TypeError"
| "get_prop JNull k = Inl TypeError"
| "get_prop (JObj kvs) k = Inr (case map_of kvs k of Some v \<Rightarrow> v | None \<Rightarrow> JUndefined)"
| "get_prop v k = Inr JUndefined"

text \<open>Sequencing of computations that may throw.\<close>

fun ebind :: "error + 'a \<Rightarrow> ('a \<Rightarrow> error + 'b) \<Rightarrow> error + 'b" where
  "ebind (Inl e) f = Inl e"
| "ebind (Inr x) f = f x"

text \<open>\<^verbatim>\<open>xs.map(f)\<close> where \<^verbatim>\<open>f\<close> may throw: the first exception ends the map.\<close>

fun map_throwing :: "('a \<Rightarrow> error + 'b) \<Rightarrow> 'a list \<Rightarrow> error + 'b list" where
  "map_throwing f [] = Inr []"
| "map_throwing f (x # xs) =
     (case f x of
        Inl e \<Rightarrow> Inl e
      | Inr y \<Rightarrow> (case map_throwing f xs of Inl e \<Rightarrow> Inl e | Inr ys \<Rightarrow> Inr (y # ys)))"

text \<open>\<^verbatim>\<open>xs.join(sep)\<close> on an array of strings.\<close>

fun join :: "string \<Rightarrow> string list \<Rightarrow> string" where
  "join sep [] = []"
| "join sep [x] = x"
| "join sep (x # y # ys) = x @ sep @ join sep (y # ys)"

text \<open>Decimal digits of a natural number, as \<^verbatim>\<open>String(n)\<close> prints them.\<close>

definition digit_char :: "nat \<Rightarrow> char" where
  "digit_char d = ''0123456789'' ! d"

fun string_of_nat :: "nat \<Rightarrow> string" where
  "string_of_nat n =
     (if n < 10 then [digit_char n] else string_of_nat (n div 10) @ [digit_char (n mod 10)])"

declare string_of_nat.simps [simp del]

definition string_of_int :: "int \<Rightarrow> string" where
  "string_of_int i = (if i < 0 then CHR ''-'' # string_of_nat (nat (- i)) else string_of_nat (nat i))"

text \<open>
  \<^verbatim>\<open>String(v)\<close>, which is also what a template literal applies to an interpolated
  value. An array prints its elements joined by commas, \<^verbatim>\<open>null\<close> and \<^verbatim>\<open>undefined\<close>
  elements as the empty string; an object prints as \<^verbatim>\<open>[object Object]\<close>.
\<close>

fun to_string :: "jsval \<Rightarrow> string" where
  "to_string JUndefined = ''undefined''"
| "to_string JNull = ''null''"
| "to_string (JBool b) = (if b then ''true'' else ''false'')"
| "to_string (JNum n) = string_of_int n"
| "to_string (JStr s) = s"
| "to_string (JArr xs) =
     join '','' (map (\<lambda>x. if x = JUndefined \<or> x = JNull then [] else to_string x) xs)"
| "to_string (JObj kvs) = ''[object Object]''"

section \<open>CSV encoding\<close>

definition comma :: char where "comma = CHR '',''"
definition dquote :: char where "dquote = CHR 0x22"
definition newline :: char where "newline = CHR 0x0A"
definition carriage_return :: char where "carriage_return = CHR 0x0D"

text \<open>\<^verbatim>\<open>stringValue.replace(/"/g, '""')\<close>\<close>

fun double_quotes :: "string \<Rightarrow> string" where
  "double_quotes [] = []"
| "double_quotes (c # cs) =
     (if c = dquote then dquote # dquote # double_quotes cs else c # double_quotes cs)"

text \<open>escapeCsvValue, index.js lines 45 to 56.\<close>

definition escapeCsvValue :: "jsval \<Rightarrow> string" where
  "escapeCsvValue v =
     (if v = JNull \<or> v = JUndefined then []
      else
        let stringValue = to_string v in
        if comma \<in> set stringValue \<or> newline \<in> set stringValue \<or> dquote \<in> set stringValue
        then [dquote] @ double_quotes stringValue @ [dquote]
        else stringValue)"

text \<open>
  convertToCsv, index.js lines 61 to 73. A row is an object; \<^verbatim>\<open>row[header]\<close> of a
  missing key is \<^verbatim>\<open>undefined\<close>. The two arguments may be absent (\<open>None\<close>).
\<close>

type_synonym row = "(string \<times> jsval) list"

definition row_get :: "row \<Rightarrow> string \<Rightarrow> jsval" where
  "row_get r h = (case map_of r h of Some v \<Rightarrow> v | None \<Rightarrow> JUndefined)"

definition csv_cell :: "row \<Rightarrow> string \<Rightarrow> string" where
  "csv_cell r h = escapeCsvValue (js_or (row_get r h) (JStr []))"

definition convertToCsv :: "row list option \<Rightarrow> string list option \<Rightarrow> string" where
  "convertToCsv dataArray headers =
     (case dataArray of
        None \<Rightarrow> []
      | Some rows \<Rightarrow>
          if length rows = 0 then []
          else
            let actualHeaders = (case headers of Some hs \<Rightarrow> hs | None \<Rightarrow> map fst (hd rows));
                headerRow = join [comma] (map (\<lambda>h. escapeCsvValue (JStr h)) actualHeaders);
                dataRows = map (\<lambda>r. join [comma] (map (csv_cell r) actualHeaders)) rows
            in join [newline] (headerRow # dataRows))"

section \<open>Quota state\<close>

text \<open>
  A JavaScript number as the quota state holds it: a finite integer, \<^verbatim>\<open>Infinity\<close>
  (the initial and post-pause value of \<^verbatim>\<open>remaining\<close>) or \<^verbatim>\<open>NaN\<close> (what
  \<^verbatim>\<open>parseInt\<close> gives on a header without digits).
\<close>

datatype jsnum = Fin int | PosInf | NaN

text \<open>\<^verbatim>\<open>a < b\<close> and \<^verbatim>\<open>a > b\<close> on numbers: every comparison with \<^verbatim>\<open>NaN\<close> is false.\<close>

fun js_lt :: "jsnum \<Rightarrow> jsnum \<Rightarrow> bool" where
  "js_lt (Fin a) (Fin b) = (a < b)"
| "js_lt (Fin a) PosInf = True"
| "js_lt PosInf b = False"
| "js_lt NaN b = False"
| "js_lt a NaN = False"

definition js_gt :: "jsnum \<Rightarrow> jsnum \<Rightarrow> bool" where
  "js_gt a b = js_lt b a"

text \<open>\<^verbatim>\<open>x * k\<close> for a positive integer \<open>k\<close>, and \<^verbatim>\<open>x + d\<close> for an integer \<open>d\<close>.\<close>

fun js_scale :: "jsnum \<Rightarrow> int \<Rightarrow> jsnum" where
  "js_scale (Fin a) k = Fin (a * k)"
| "js_scale PosInf k = PosInf"
| "js_scale NaN k = NaN"

fun js_shift :: "jsnum \<Rightarrow> int \<Rightarrow> jsnum" where
  "js_shift (Fin a) d = Fin (a + d)"
| "js_shift PosInf d = PosInf"
| "js_shift NaN d = NaN"

text \<open>
  \<^verbatim>\<open>parseInt(s, 10)\<close>: leading white space is skipped, then an optional sign, then the
  longest run of decimal digits; without a digit the result is \<^verbatim>\<open>NaN\<close>.
\<close>

definition is_js_space :: "char \<Rightarrow> bool" where
  "is_js_space c = (of_char c \<in> {9, 10, 11, 12, 13, 32, 160 :: nat})"

definition is_digit :: "char \<Rightarrow> bool" where
  "is_digit c = (48 \<le> (of_char c :: nat) \<and> (of_char c :: nat) \<le> 57)"

definition digits_value :: "string \<Rightarrow> nat" where
  "digits_value ds = foldl (\<lambda>acc c. acc * 10 + (of_char c - 48)) 0 ds"

definition parseInt :: "string \<Rightarrow> jsnum" where
  "parseInt s =
     (let t = dropWhile is_js_space s;
          neg = (t \<noteq> [] \<and> hd t = CHR ''-'');
          u = (if t \<noteq> [] \<and> (hd t = CHR ''-'' \<or> hd t = CHR ''+'') then tl t else t);
          ds = takeWhile is_digit u
      in if ds = [] then NaN
         else if neg then Fin (- int (digits_value ds)) else Fin (int (digits_value ds)))"

text \<open>rateLimitInfo, index.js lines 26 to 29, and the threshold of line 32.\<close>

record rate_limit_info =
  remaining :: jsnum
  resetTimestamp :: jsnum

definition initial_rateLimitInfo :: rate_limit_info where
  "initial_rateLimitInfo = \<lparr>remaining = PosInf, resetTimestamp = Fin 0\<rparr>"

definition RATE_LIMIT_PAUSE_THRESHOLD :: int where
  "RATE_LIMIT_PAUSE_THRESHOLD = 10"

text \<open>
  checkAndHandleRateLimits, index.js lines 155 to 172. \<open>now\<close> is the value that
  \<^verbatim>\<open>Date.now()\<close> returns. The result is the time slept (\<open>None\<close> when the function
  does not sleep) and the quota state it leaves.
\<close>

definition shouldPause :: "rate_limit_info \<Rightarrow> bool" where
  "shouldPause rli = js_lt (remaining rli) (Fin RATE_LIMIT_PAUSE_THRESHOLD)"

definition checkAndHandleRateLimits :: "int \<Rightarrow> rate_limit_info \<Rightarrow> jsnum option \<times> rate_limit_info" where
  "checkAndHandleRateLimits now rli =
     (if shouldPause rli then
        let resetTimeMs = js_scale (resetTimestamp rli) 1000;
            waitTime = js_shift (js_shift resetTimeMs (- now)) 10000
        in if js_gt waitTime (Fin 0) then (Some waitTime, rli\<lparr>remaining := PosInf\<rparr>)
           else (None, rli)
      else (None, rli))"

section \<open>Fetching a page\<close>

text \<open>
  What the two list endpoints answer with, once \<^verbatim>\<open>JSON.parse\<close> has read the body: a
  JSON array of records, or \<^verbatim>\<open>null\<close>.
\<close>

datatype page = PNull | PArr "jsval list"

text \<open>
  What one request meets: a transport failure before any response (the flag says
  whether its code is \<^verbatim>\<open>ENOTFOUND\<close>), or a response with its two quota headers
  (absent: \<open>None\<close>), its status code and its body as parsed (\<open>None\<close> when
  \<^verbatim>\<open>JSON.parse\<close> throws on it).
\<close>

datatype response =
    NetError bool
  | Http "string option" "string option" nat "page option"

definition header_present :: "string option \<Rightarrow> bool" where
  "header_present h = (case h of None \<Rightarrow> False | Some s \<Rightarrow> s \<noteq> [])"

text \<open>fetchGitHubAPI, index.js lines 78 to 150: the new quota state and the settled promise.\<close>

fun fetchGitHubAPI :: "rate_limit_info \<Rightarrow> response \<Rightarrow> rate_limit_info \<times> (error + page)" where
  "fetchGitHubAPI rli (NetError enotfound) =
     (rli, Inl (if enotfound then DnsLookupFailed else HttpsRequestFailed))"
| "fetchGitHubAPI rli (Http hdr_remaining hdr_reset statusCode body) =
     (let rli1 = (if header_present hdr_remaining
                  then rli\<lparr>remaining := parseInt (the hdr_remaining)\<rparr> else rli);
          rli2 = (if header_present hdr_reset
                  then rli1\<lparr>resetTimestamp := parseInt (the hdr_reset)\<rparr> else rli1)
      in (rli2,
          if 200 \<le> statusCode \<and> statusCode < 300
          then (case body of Some p \<Rightarrow> Inr p | None \<Rightarrow> Inl JsonParseFailed)
          else Inl (ApiRequestFailed statusCode)))"

section \<open>Dates\<close>

text \<open>
  \<^verbatim>\<open>new Date(v).toISOString()\<close>. The time value of \<^verbatim>\<open>new Date(v)\<close> is a number of
  milliseconds since the epoch, or invalid (\<open>None\<close>): \<^verbatim>\<open>undefined\<close> gives an invalid
  date, \<^verbatim>\<open>null\<close> and booleans convert to 0 and 1, a number is its own time value
  when within 8.64e15 of zero, and a string (or what an array or object prints as) goes
  through \<^verbatim>\<open>Date.parse\<close>, which is host-defined beyond the ISO format and therefore a
  parameter here.
\<close>

definition time_clip :: "int \<Rightarrow> int option" where
  "time_clip t = (if \<bar>t\<bar> \<le> 8640000000000000 then Some t else None)"

fun js_date :: "(string \<Rightarrow> int option) \<Rightarrow> jsval \<Rightarrow> int option" where
  "js_date date_parse JUndefined = None"
| "js_date date_parse JNull = Some 0"
| "js_date date_parse (JBool b) = Some (if b then 1 else 0)"
| "js_date date_parse (JNum n) = time_clip n"
| "js_date date_parse (JStr s) = date_parse s"
| "js_date date_parse (JArr xs) = date_parse (to_string (JArr xs))"
| "js_date date_parse (JObj kvs) = date_parse (to_string (JObj kvs))"

text \<open>Zero-padded decimal of a fixed width.\<close>

fun pad :: "nat \<Rightarrow> nat \<Rightarrow> string" where
  "pad 0 n = []"
| "pad (Suc w) n = pad w (n div 10) @ [digit_char (n mod 10)]"

text \<open>The proleptic Gregorian date (year, month, day) of a day number counted from 1970-01-01.\<close>

definition civil_from_days :: "int \<Rightarrow> int \<times> nat \<times> nat" where
  "civil_from_days z0 =
     (let z = z0 + 719468;
          era = z div 146097;
          doe = z - era * 146097;
          yoe = (doe - doe div 1460 + doe div 36524 - doe div 146096) div 365;
          doy = doe - (365 * yoe + yoe div 4 - yoe div 100);
          mp = (5 * doy + 2) div 153;
          d = doy - (153 * mp + 2) div 5 + 1;
          m = (if mp < 10 then mp + 3 else mp - 9);
          y = yoe + era * 400 + (if m \<le> 2 then 1 else 0)
      in (y, nat m, nat d))"

definition year_string :: "int \<Rightarrow> string" where
  "year_string y =
     (if 0 \<le> y \<and> y \<le> 9999 then pad 4 (nat y)
      else (if y < 0 then ''-'' else ''+'') @ pad 6 (nat \<bar>y\<bar>))"

definition iso_string :: "int \<Rightarrow> string" where
  "iso_string t =
     (let ms = nat (t mod 86400000) in
      case civil_from_days (t div 86400000) of
        (y, m, d) \<Rightarrow>
          year_string y @ ''-'' @ pad 2 m @ ''-'' @ pad 2 d @ ''T''
          @ pad 2 (ms div 3600000) @ '':'' @ pad 2 (ms div 60000 mod 60) @ '':''
          @ pad 2 (ms div 1000 mod 60) @ ''.'' @ pad 3 (ms mod 1000) @ ''Z'')"

text \<open>\<^verbatim>\<open>toISOString\<close> throws a RangeError on an invalid date.\<close>

definition toISOString :: "int option \<Rightarrow> error + string" where
  "toISOString tv = (case tv of None \<Rightarrow> Inl RangeError | Some t \<Rightarrow> Inr (iso_string t))"

section \<open>Normalising records\<close>

text \<open>
  The object built for one contributor, index.js lines 214 to 222. Reading a property
  of a \<^verbatim>\<open>null\<close> array element throws.
\<close>

definition contributor_row :: "jsval \<Rightarrow> error + row" where
  "contributor_row c =
     ebind (get_prop c ''login'') (\<lambda>login.
     ebind (get_prop c ''type'') (\<lambda>type.
     ebind (get_prop c ''name'') (\<lambda>name.
     ebind (get_prop c ''contributions'') (\<lambda>contributions.
     ebind (get_prop c ''html_url'') (\<lambda>html_url.
     ebind (get_prop c ''email'') (\<lambda>email.
     Inr [(''Login'',
             js_or login
               (if type = JStr ''Anonymous:''
                then JStr (''Anonymous ('' @ to_string (js_or name (JStr ''Unknown'')) @ '')'')
                else JStr ''N/A'')),
          (''Contributions'', contributions),
          (''ProfileURL'', js_or html_url (JStr ''N/A'')),
          (''Type'', type),
          (''Email'', js_or email (JStr ''N/A'')),
          (''Name'', js_or name (JStr ''N/A''))]))))))"

definition contributors_csvHeaders :: "string list" where
  "contributors_csvHeaders = [''Login'', ''Contributions'', ''ProfileURL'', ''Type'', ''Name'', ''Email'']"

definition BOT_USER_TO_FILTER :: string where
  "BOT_USER_TO_FILTER = ''dependabot[bot]''"

text \<open>
  The filter callback of index.js lines 265 to 272:
  \<^verbatim>\<open>commitData.author && commitData.author.login === BOT_USER_TO_FILTER\<close>.
\<close>

definition is_bot_commit :: "jsval \<Rightarrow> error + bool" where
  "is_bot_commit commitData =
     ebind (get_prop commitData ''author'') (\<lambda>author.
       if truthy author
       then ebind (get_prop author ''login'') (\<lambda>login. Inr (login = JStr BOT_USER_TO_FILTER))
       else Inr False)"

text \<open>
  \<^verbatim>\<open>commitsPage.filter(...)\<close> with its counter: the value of filteredCommitsCount after
  the filter, and the surviving records or the exception that ended the filter.
\<close>

fun filter_bots :: "jsval list \<Rightarrow> nat \<Rightarrow> nat \<times> (error + jsval list)" where
  "filter_bots [] n = (n, Inr [])"
| "filter_bots (c # cs) n =
     (case is_bot_commit c of
        Inl e \<Rightarrow> (n, Inl e)
      | Inr b \<Rightarrow>
          if b then filter_bots cs (Suc n)
          else (case filter_bots cs n of
                  (n', Inl e) \<Rightarrow> (n', Inl e)
                | (n', Inr ys) \<Rightarrow> (n', Inr (c # ys))))"

text \<open>\<^verbatim>\<open>commitData.commit.author ? commitData.commit.author[k] : "N/A"\<close>\<close>

definition commit_author_field :: "jsval \<Rightarrow> string \<Rightarrow> error + jsval" where
  "commit_author_field commitData k =
     ebind (get_prop commitData ''commit'') (\<lambda>commit.
     ebind (get_prop commit ''author'') (\<lambda>author.
       if truthy author then get_prop author k else Inr (JStr ''N/A'')))"

text \<open>The fields of index.js lines 278, 281 and 282.\<close>

definition commit_AuthorLogin :: "jsval \<Rightarrow> error + jsval" where
  "commit_AuthorLogin commitData =
     ebind (get_prop commitData ''author'') (\<lambda>author.
       if truthy author then get_prop author ''login''
       else
         ebind (get_prop commitData ''commit'') (\<lambda>commit.
         ebind (get_prop commit ''author'') (\<lambda>cauthor.
           if truthy cauthor
           then ebind (get_prop cauthor ''name'') (\<lambda>name. Inr (JStr (''Git: '' @ to_string name)))
           else Inr (JStr ''N/A''))))"

definition commit_Date :: "(string \<Rightarrow> int option) \<Rightarrow> jsval \<Rightarrow> error + jsval" where
  "commit_Date date_parse commitData =
     ebind (get_prop commitData ''commit'') (\<lambda>commit.
     ebind (get_prop commit ''author'') (\<lambda>author.
       if truthy author
       then ebind (get_prop author ''date'') (\<lambda>date.
            ebind (toISOString (js_date date_parse date)) (\<lambda>iso. Inr (JStr iso)))
       else Inr (JStr ''N/A'')))"

text \<open>
  \<^verbatim>\<open>commitData.commit.message.split("\n")[0]\<close>: the text before the first line feed;
  a message that is not a string has no \<^verbatim>\<open>split\<close> to call.
\<close>

definition commit_Message :: "jsval \<Rightarrow> error + jsval" where
  "commit_Message commitData =
     ebind (get_prop commitData ''commit'') (\<lambda>commit.
     ebind (get_prop commit ''message'') (\<lambda>message.
       case message of
         JStr s \<Rightarrow> Inr (JStr (takeWhile (\<lambda>ch. ch \<noteq> newline) s))
       | _ \<Rightarrow> Inl TypeError))"

text \<open>The object built for one commit, index.js lines 275 to 283, field by field in order.\<close>

definition commit_row :: "(string \<Rightarrow> int option) \<Rightarrow> jsval \<Rightarrow> error + row" where
  "commit_row date_parse commitData =
     ebind (get_prop commitData ''sha'') (\<lambda>sha.
     ebind (commit_AuthorLogin commitData) (\<lambda>authorLogin.
     ebind (commit_author_field commitData ''name'') (\<lambda>authorName.
     ebind (commit_author_field commitData ''email'') (\<lambda>authorEmail.
     ebind (commit_Date date_parse commitData) (\<lambda>date.
     ebind (commit_Message commitData) (\<lambda>message.
     Inr [(''SHA'', sha),
          (''AuthorLogin'', authorLogin),
          (''AuthorName'', authorName),
          (''AuthorEmail'', authorEmail),
          (''Date'', date),
          (''Message'', message)]))))))"

definition commits_csvHeaders :: "string list" where
  "commits_csvHeaders = [''SHA'', ''AuthorLogin'', ''AuthorName'', ''AuthorEmail'', ''Date'', ''Message'']"

text \<open>
  Folding one non-empty commits page, index.js lines 265 to 286: the counter after the
  filter, and the accumulator after the push or the exception thrown on the way.
\<close>

definition fold_commits_page ::
  "(string \<Rightarrow> int option) \<Rightarrow> jsval list \<Rightarrow> row list \<Rightarrow> nat \<Rightarrow> nat \<times> (error + row list)" where
  "fold_commits_page date_parse commitsPage allCommitsData filteredCommitsCount =
     (case filter_bots commitsPage filteredCommitsCount of
        (n, Inl e) \<Rightarrow> (n, Inl e)
      | (n, Inr filteredCommitsFromPage) \<Rightarrow>
          if length filteredCommitsFromPage > 0
          then (case map_throwing (commit_row date_parse) filteredCommitsFromPage of
                  Inl e \<Rightarrow> (n, Inl e)
                | Inr commitsDataForCsv \<Rightarrow> (n, Inr (allCommitsData @ commitsDataForCsv)))
          else (n, Inr allCommitsData))"

section \<open>The two harvesters\<close>

text \<open>
  One iteration of a harvest loop reads the clock (in the pause check) and issues one
  request. A run is driven by the list of what these meet, in order: the loop is
  a recursion on that list, and a loop that wants another request when the list is
  used up ends as \<open>Pending\<close>. \<open>Done\<close> is the \<^verbatim>\<open>break\<close> out of the loop, and
  \<open>Threw\<close> an exception on its way to the \<^verbatim>\<open>catch\<close>.
\<close>

type_synonym event = "int \<times> response"

datatype ending = Done | Threw error | Pending

record 'a harvest_run =
  quota :: rate_limit_info
  records :: "'a list"
  requested :: "nat list"
  ending :: ending

record 'a commits_run = "'a harvest_run" +
  filteredCommitsCount :: nat

definition perPage :: nat where
  "perPage = 100"

text \<open>
  The loop of processAllContributors, index.js lines 187 to 209. \<open>requested\<close> lists
  the page numbers of the requests issued so far.
\<close>

fun contributors_loop ::
  "event list \<Rightarrow> rate_limit_info \<Rightarrow> jsval list \<Rightarrow> nat \<Rightarrow> nat list \<Rightarrow> jsval harvest_run" where
  "contributors_loop [] rli allContributors page reqs =
     \<lparr>quota = rli, records = allContributors, requested = reqs, ending = Pending\<rparr>"
| "contributors_loop ((now, resp) # es) rli allContributors page reqs =
     (let rli1 = snd (checkAndHandleRateLimits now rli);
          rli2 = fst (fetchGitHubAPI rli1 resp)
      in case snd (fetchGitHubAPI rli1 resp) of
           Inl e \<Rightarrow>
             \<lparr>quota = rli2, records = allContributors, requested = reqs @ [page], ending = Threw e\<rparr>
         | Inr PNull \<Rightarrow>
             \<lparr>quota = rli2, records = allContributors, requested = reqs @ [page], ending = Done\<rparr>
         | Inr (PArr contributorsPage) \<Rightarrow>
             if length contributorsPage > 0 then
               if length contributorsPage < perPage
               then \<lparr>quota = rli2, records = allContributors @ contributorsPage,
                     requested = reqs @ [page], ending = Done\<rparr>
               else contributors_loop es rli2 (allContributors @ contributorsPage) (page + 1)
                      (reqs @ [page])
             else \<lparr>quota = rli2, records = allContributors, requested = reqs @ [page],
                   ending = Done\<rparr>)"

text \<open>
  What a harvester leaves behind: the file it wrote, the informational line that
  nothing was processed (\<^verbatim>\<open>console.log\<close>), or the error line of its \<^verbatim>\<open>catch\<close>
  (\<^verbatim>\<open>console.error\<close>); \<open>StillFetching\<close> belongs to a run whose loop is \<open>Pending\<close>.
\<close>

datatype outcome = Saved string | NothingProcessed | ErrorReported error | StillFetching

text \<open>
  processAllContributors, index.js lines 178 to 242. \<open>write_ok\<close> says whether
  \<^verbatim>\<open>fsPromises.writeFile\<close> succeeds.
\<close>

definition contributors_export :: "bool \<Rightarrow> jsval list \<Rightarrow> outcome" where
  "contributors_export write_ok allContributors =
     (if length allContributors > 0 then
        (case map_throwing contributor_row allContributors of
           Inl e \<Rightarrow> ErrorReported e
         | Inr contributorDataForCsv \<Rightarrow>
             let csvData = convertToCsv (Some contributorDataForCsv) (Some contributors_csvHeaders)
             in if write_ok then Saved csvData else ErrorReported WriteFailed)
      else NothingProcessed)"

definition processAllContributors ::
  "event list \<Rightarrow> bool \<Rightarrow> rate_limit_info \<Rightarrow> jsval harvest_run \<times> outcome" where
  "processAllContributors es write_ok rli =
     (let run = contributors_loop es rli [] 1 [] in
      (run,
       case ending run of
         Threw e \<Rightarrow> ErrorReported e
       | Pending \<Rightarrow> StillFetching
       | Done \<Rightarrow> contributors_export write_ok (records run)))"

text \<open>The loop of processAllCommits, index.js lines 257 to 299.\<close>

fun commits_loop ::
  "(string \<Rightarrow> int option) \<Rightarrow> event list \<Rightarrow> rate_limit_info \<Rightarrow> row list \<Rightarrow> nat \<Rightarrow> nat
     \<Rightarrow> nat list \<Rightarrow> row commits_run" where
  "commits_loop date_parse [] rli allCommitsData page count reqs =
     \<lparr>quota = rli, records = allCommitsData, requested = reqs, ending = Pending,
      filteredCommitsCount = count\<rparr>"
| "commits_loop date_parse ((now, resp) # es) rli allCommitsData page count reqs =
     (let rli1 = snd (checkAndHandleRateLimits now rli);
          rli2 = fst (fetchGitHubAPI rli1 resp)
      in case snd (fetchGitHubAPI rli1 resp) of
           Inl e \<Rightarrow>
             \<lparr>quota = rli2, records = allCommitsData, requested = reqs @ [page], ending = Threw e,
              filteredCommitsCount = count\<rparr>
         | Inr PNull \<Rightarrow>
             \<lparr>quota = rli2, records = allCommitsData, requested = reqs @ [page], ending = Done,
              filteredCommitsCount = count\<rparr>
         | Inr (PArr commitsPage) \<Rightarrow>
             if length commitsPage > 0 then
               (case fold_commits_page date_parse commitsPage allCommitsData count of
                  (count', Inl e) \<Rightarrow>
                    \<lparr>quota = rli2, records = allCommitsData, requested = reqs @ [page],
                     ending = Threw e, filteredCommitsCount = count'\<rparr>
                | (count', Inr allCommitsData') \<Rightarrow>
                    if length commitsPage < perPage
                    then \<lparr>quota = rli2, records = allCommitsData', requested = reqs @ [page],
                          ending = Done, filteredCommitsCount = count'\<rparr>
                    else commits_loop date_parse es rli2 allCommitsData' (page + 1) count'
                           (reqs @ [page]))
             else \<lparr>quota = rli2, records = allCommitsData, requested = reqs @ [page],
                   ending = Done, filteredCommitsCount = count\<rparr>)"

text \<open>processAllCommits, index.js lines 247 to 332.\<close>

definition commits_export :: "bool \<Rightarrow> row list \<Rightarrow> outcome" where
  "commits_export write_ok allCommitsData =
     (if length allCommitsData > 0 then
        let csvData = convertToCsv (Some allCommitsData) (Some commits_csvHeaders)
        in if write_ok then Saved csvData else ErrorReported WriteFailed
      else NothingProcessed)"

definition processAllCommits ::
  "(string \<Rightarrow> int option) \<Rightarrow> event list \<Rightarrow> bool \<Rightarrow> rate_limit_info \<Rightarrow> row commits_run \<times> outcome" where
  "processAllCommits date_parse es write_ok rli =
     (let run = commits_loop date_parse es rli [] 1 0 [] in
      (run,
       case ending run of
         Threw e \<Rightarrow> ErrorReported e
       | Pending \<Rightarrow> StillFetching
       | Done \<Rightarrow> commits_export write_ok (records run)))"

section \<open>Observing a run\<close>

text \<open>
  The notions the properties below are stated with. What a request settles to does not
  depend on the quota state, so it is read off the response alone.
\<close>

definition settled :: "response \<Rightarrow> error + page" where
  "settled resp = snd (fetchGitHubAPI initial_rateLimitInfo resp)"

text \<open>The raw records of a successfully fetched page (\<open>None\<close> for a failed fetch and for \<^verbatim>\<open>null\<close>).\<close>

definition page_records :: "event \<Rightarrow> jsval list option" where
  "page_records ev = (case settled (snd ev) of Inr (PArr xs) \<Rightarrow> Some xs | _ \<Rightarrow> None)"

text \<open>The raw records of the successfully fetched pages, and their number.\<close>

definition pages_of :: "event list \<Rightarrow> jsval list" where
  "pages_of es = concat (map (\<lambda>ev. case page_records ev of Some xs \<Rightarrow> xs | None \<Rightarrow> []) es)"

definition observed :: "event list \<Rightarrow> nat" where
  "observed es = sum_list (map (\<lambda>ev. case page_records ev of Some xs \<Rightarrow> length xs | None \<Rightarrow> 0) es)"

text \<open>A page of the configured page size (or longer): the loop goes on after it.\<close>

definition full_page :: "event \<Rightarrow> bool" where
  "full_page ev = (case page_records ev of Some xs \<Rightarrow> perPage \<le> length xs | None \<Rightarrow> False)"

text \<open>The quota state after the iterations that a list of events drives.\<close>

fun quota_after :: "event list \<Rightarrow> rate_limit_info \<Rightarrow> rate_limit_info" where
  "quota_after [] rli = rli"
| "quota_after ((now, resp) # es) rli =
     quota_after es (fst (fetchGitHubAPI (snd (checkAndHandleRateLimits now rli)) resp))"

text \<open>The records of a commits page that the filter excludes (their number) and keeps.\<close>

definition excluded_in :: "jsval list \<Rightarrow> nat" where
  "excluded_in xs = length (filter (\<lambda>c. is_bot_commit c = Inr True) xs)"

definition surviving :: "jsval list \<Rightarrow> jsval list" where
  "surviving xs = filter (\<lambda>c. is_bot_commit c \<noteq> Inr True) xs"

definition excluded_of :: "event list \<Rightarrow> nat" where
  "excluded_of es = excluded_in (pages_of es)"

text \<open>The rows that folding a commits page adds, or the exception it throws.\<close>

definition page_rows :: "(string \<Rightarrow> int option) \<Rightarrow> jsval list \<Rightarrow> error + row list" where
  "page_rows date_parse xs = snd (fold_commits_page date_parse xs [] 0)"

definition rows_of :: "(string \<Rightarrow> int option) \<Rightarrow> event list \<Rightarrow> row list" where
  "rows_of date_parse es =
     concat (map (\<lambda>ev. case page_rows date_parse
                               (case page_records ev of Some xs \<Rightarrow> xs | None \<Rightarrow> []) of
                          Inr rows \<Rightarrow> rows | Inl e \<Rightarrow> []) es)"

text \<open>A commits page of the configured page size (or longer) whose fold does not throw.\<close>

definition full_commits_page :: "(string \<Rightarrow> int option) \<Rightarrow> event \<Rightarrow> bool" where
  "full_commits_page date_parse ev =
     (case page_records ev of
        Some xs \<Rightarrow>
          perPage \<le> length xs
          \<and> (case page_rows date_parse xs of Inr rows \<Rightarrow> True | Inl e \<Rightarrow> False)
      | None \<Rightarrow> False)"

text \<open>A \<^verbatim>\<open>Date.parse\<close> that recognises no string, for records that carry no date string.\<close>

definition parse_nothing :: "string \<Rightarrow> int option" where
  "parse_nothing s = None"

section \<open>Reading CSV text\<close>

text \<open>
  The reader that the round-trip property is stated against: a reader of RFC 4180 text,
  one character at a time. Fields are separated by commas and records by a line feed
  (or a carriage return followed by a line feed); a field that starts with a double
  quote runs to its closing quote, a doubled quote inside standing for one quote. A
  quote inside an unquoted field, a character after a closing quote, a carriage return
  without its line feed and a quoted field left open are errors (\<open>None\<close>). The
  arguments are the state, the field and the record being read, and the records read.
\<close>

datatype csv_state = FieldStart | InUnquoted | InQuoted | QuoteSeen | AfterCR

fun csv_read_from ::
  "csv_state \<Rightarrow> string \<Rightarrow> string list \<Rightarrow> string list list \<Rightarrow> string \<Rightarrow> string list list option" where
  "csv_read_from st cur flds recs [] =
     (if st = InQuoted \<or> st = AfterCR then None
      else if st = FieldStart \<and> flds = [] \<and> recs \<noteq> [] then Some recs
      else Some (recs @ [flds @ [cur]]))"
| "csv_read_from FieldStart cur flds recs (c # cs) =
     (if c = dquote then csv_read_from InQuoted [] flds recs cs
      else if c = comma then csv_read_from FieldStart [] (flds @ [[]]) recs cs
      else if c = newline then csv_read_from FieldStart [] [] (recs @ [flds @ [[]]]) cs
      else if c = carriage_return then csv_read_from AfterCR [] flds recs cs
      else csv_read_from InUnquoted [c] flds recs cs)"
| "csv_read_from InUnquoted cur flds recs (c # cs) =
     (if c = dquote then None
      else if c = comma then csv_read_from FieldStart [] (flds @ [cur]) recs cs
      else if c = newline then csv_read_from FieldStart [] [] (recs @ [flds @ [cur]]) cs
      else if c = carriage_return then csv_read_from AfterCR cur flds recs cs
      else csv_read_from InUnquoted (cur @ [c]) flds recs cs)"
| "csv_read_from InQuoted cur flds recs (c # cs) =
     (if c = dquote then csv_read_from QuoteSeen cur flds recs cs
      else csv_read_from InQuoted (cur @ [c]) flds recs cs)"
| "csv_read_from QuoteSeen cur flds recs (c # cs) =
     (if c = dquote then csv_read_from InQuoted (cur @ [dquote]) flds recs cs
      else if c = comma then csv_read_from FieldStart [] (flds @ [cur]) recs cs
      else if c = newline then csv_read_from FieldStart [] [] (recs @ [flds @ [cur]]) cs
      else if c = carriage_return then csv_read_from AfterCR cur flds recs cs
      else None)"
| "csv_read_from AfterCR cur flds recs (c # cs) =
     (if c = newline then csv_read_from FieldStart [] [] (recs @ [flds @ [cur]]) cs
      else None)"

definition csv_read :: "string \<Rightarrow> string list list option" where
  "csv_read text = csv_read_from FieldStart [] [] [] text"

text \<open>The condition under which escapeCsvValue quotes a string.\<close>

definition needs_quoting :: "string \<Rightarrow> bool" where
  "needs_quoting s = (comma \<in> set s \<or> newline \<in> set s \<or> dquote \<in> set s)"

text \<open>A field that the reader gets back: one that is quoted, or one without a carriage return.\<close>

definition field_ok :: "string \<Rightarrow> bool" where
  "field_ok s = (needs_quoting s \<or> carriage_return \<notin> set s)"

section \<open>Properties\<close>

subsection \<open>Helper facts\<close>

lemma falsy_iff: "(\<not> truthy v) = (v \<in> {JUndefined, JNull, JBool False, JNum 0, JStr []})"
  by (cases v) auto

lemma csv_cell_eq:
  "csv_cell r = (\<lambda>h. if truthy (row_get r h) then escapeCsvValue (row_get r h) else [])"
  by (rule ext) (simp add: csv_cell_def js_or_def escapeCsvValue_def)

lemma escapeCsvValue_JStr_plain:
  "comma \<notin> set s \<Longrightarrow> newline \<notin> set s \<Longrightarrow> dquote \<notin> set s
     \<Longrightarrow> escapeCsvValue (JStr s) = s"
  by (simp add: escapeCsvValue_def)








subsection \<open>Contributor login\<close>

text \<open>
  Claim C1. The record \<^verbatim>\<open>{login: null, type: "Anonymous", name: "Jane Doe"}\<close> should
  normalise to the login \<^verbatim>\<open>Anonymous (Jane Doe)\<close>. Line 216 compares the type with
  \<^verbatim>\<open>"Anonymous:"\<close> (a colon too many), so the record gets the login \<^verbatim>\<open>N/A\<close>.
\<close>

theorem anonymous_contributor_login_is_NA:
  "contributor_row
     (JObj [(''login'', JNull), (''type'', JStr ''Anonymous''), (''name'', JStr ''Jane Doe'')])
   = Inr [(''Login'', JStr ''N/A''), (''Contributions'', JUndefined),
          (''ProfileURL'', JStr ''N/A''), (''Type'', JStr ''Anonymous''),
          (''Email'', JStr ''N/A''), (''Name'', JStr ''Jane Doe'')]"
  by (simp add: contributor_row_def js_or_def)

subsection \<open>Commit date\<close>




subsection \<open>Quota\<close>



subsection \<open>Falsy cells\<close>

text \<open>
  Claim C10. The text convertToCsv returns for a non-empty table is the header line
  followed by one line per row, and in each line every falsy field value renders as the
  empty string, the others escaped; the falsy values are the missing field
  (\<^verbatim>\<open>undefined\<close>), \<^verbatim>\<open>null\<close>, \<^verbatim>\<open>false\<close>, the number 0 and the empty string.
\<close>

theorem convertToCsv_falsy_cells_empty:
  "(rows \<noteq> [] \<longrightarrow>
      convertToCsv (Some rows) (Some hs) =
        join [newline]
          (join [comma] (map (\<lambda>h. escapeCsvValue (JStr h)) hs)
           # map (\<lambda>r. join [comma]
                    (map (\<lambda>h. if truthy (row_get r h) then escapeCsvValue (row_get r h) else []) hs))
               rows))
   \<and> ((\<not> truthy v) = (v \<in> {JUndefined, JNull, JBool False, JNum 0, JStr []}))"
  by (simp add: convertToCsv_def csv_cell_eq falsy_iff del: truthy.simps)

theorem convertToCsv_falsy_cells_empty_witness:
  "convertToCsv
     (Some [[(''a'', JNum 0), (''b'', JBool False), (''c'', JStr []), (''d'', JNull),
             (''e'', JStr ''x'')]])
     (Some [''a'', ''b'', ''c'', ''d'', ''missing'', ''e''])
   = ''a,b,c,d,missing,e'' @ [newline] @ '',,,,,x''"
proof -
  let ?rows = "[[(''a'', JNum 0), (''b'', JBool False), (''c'', JStr []), (''d'', JNull),
                 (''e'', JStr ''x'')]]"
  let ?hs = "[''a'', ''b'', ''c'', ''d'', ''missing'', ''e'']"
  have ne: "?rows \<noteq> []" by simp
  have h: "map (\<lambda>h. escapeCsvValue (JStr h)) ?hs = ?hs"
    by (simp add: escapeCsvValue_JStr_plain comma_def newline_def dquote_def)
  have "convertToCsv (Some ?rows) (Some ?hs) =
        join [newline]
          (join [comma] (map (\<lambda>h. escapeCsvValue (JStr h)) ?hs)
           # map (\<lambda>r. join [comma]
                    (map (\<lambda>h. if truthy (row_get r h) then escapeCsvValue (row_get r h) else []) ?hs))
               ?rows)"
    by (rule mp [OF conjunct1 [OF convertToCsv_falsy_cells_empty [of ?rows ?hs JNull]] ne])
  also have "\<dots> = ''a,b,c,d,missing,e'' @ [newline] @ '',,,,,x''"
    unfolding h
    by (simp add: row_get_def escapeCsvValue_JStr_plain comma_def newline_def dquote_def)
  finally show ?thesis .
qed

subsection \<open>Facts about the harvest loops\<close>

lemma snd_fetch: "snd (fetchGitHubAPI rli resp) = settled resp"
  by (cases resp) (simp_all add: settled_def Let_def)

lemma map_throwing_length: "map_throwing f xs = Inr ys \<Longrightarrow> length ys = length xs"
  by (induction xs arbitrary: ys) (auto split: sum.splits)

lemma filter_bots_Inr:
  "filter_bots xs n = (n', Inr ys) \<Longrightarrow> n' = n + excluded_in xs \<and> ys = surviving xs"
proof (induction xs arbitrary: n n' ys)
  case Nil
  then show ?case by (simp add: excluded_in_def surviving_def)
next
  case (Cons c cs)
  show ?case
  proof (cases "is_bot_commit c")
    case (Inl e)
    with Cons.prems show ?thesis by simp
  next
    case (Inr b)
    show ?thesis
    proof (cases b)
      case True
      with Inr Cons.prems have "filter_bots cs (Suc n) = (n', Inr ys)" by simp
      from Cons.IH [OF this] Inr True show ?thesis
        by (simp add: excluded_in_def surviving_def)
    next
      case False
      with Inr Cons.prems obtain zs where z: "filter_bots cs n = (n', Inr zs)" and y: "ys = c # zs"
        by (auto split: prod.splits sum.splits)
      from Cons.IH [OF z] Inr False y show ?thesis
        by (simp add: excluded_in_def surviving_def)
    qed
  qed
qed

lemma filter_bots_snd: "snd (filter_bots xs n) = snd (filter_bots xs m)"
proof (induction xs arbitrary: n m)
  case Nil
  then show ?case by simp
next
  case (Cons c cs)
  have a: "snd (filter_bots cs (Suc n)) = snd (filter_bots cs (Suc m))" by (rule Cons.IH)
  have b: "snd (filter_bots cs n) = snd (filter_bots cs m)" by (rule Cons.IH)
  show ?case using a b
    by (cases "filter_bots cs n"; cases "filter_bots cs m")
       (auto split: sum.splits prod.splits)
qed

lemma surviving_length: "length (surviving xs) + excluded_in xs = length xs"
proof -
  have "length (filter (\<lambda>c. is_bot_commit c = Inr True) xs)
        + length (filter (\<lambda>c. \<not> is_bot_commit c = Inr True) xs) = length xs"
    by (rule sum_length_filter_compl)
  then show ?thesis by (simp add: surviving_def excluded_in_def)
qed

lemma fold_commits_page_Inr:
  assumes "fold_commits_page dp xs acc n = (n', Inr acc')"
  shows "n' = n + excluded_in xs
       \<and> (\<exists>rows. map_throwing (commit_row dp) (surviving xs) = Inr rows \<and> acc' = acc @ rows)"
proof (cases "filter_bots xs n")
  case (Pair k r)
  show ?thesis
  proof (cases r)
    case (Inl e)
    with Pair assms show ?thesis by (simp add: fold_commits_page_def)
  next
    case (Inr ys)
    from filter_bots_Inr Pair Inr have k: "k = n + excluded_in xs" and ys: "ys = surviving xs"
      by blast+
    show ?thesis
    proof (cases "ys = []")
      case True
      with Pair Inr assms k ys show ?thesis by (simp add: fold_commits_page_def)
    next
      case False
      with Pair Inr assms k ys show ?thesis
        by (auto simp: fold_commits_page_def split: sum.splits)
    qed
  qed
qed

lemma fold_commits_page_snd:
  "snd (fold_commits_page dp xs acc n) =
     (case page_rows dp xs of Inl e \<Rightarrow> Inl e | Inr rows \<Rightarrow> Inr (acc @ rows))"
proof -
  have s: "snd (filter_bots xs n) = snd (filter_bots xs 0)" by (rule filter_bots_snd)
  show ?thesis using s
    by (cases "filter_bots xs n"; cases "filter_bots xs 0")
       (auto simp: page_rows_def fold_commits_page_def split: sum.splits)
qed

lemma fold_commits_page_ok:
  assumes "page_rows dp xs = Inr rows"
  shows "fold_commits_page dp xs acc n = (n + excluded_in xs, Inr (acc @ rows))"
proof -
  have "snd (fold_commits_page dp xs acc n) = Inr (acc @ rows)"
    using assms by (simp add: fold_commits_page_snd)
  then obtain n' where e: "fold_commits_page dp xs acc n = (n', Inr (acc @ rows))"
    by (cases "fold_commits_page dp xs acc n") auto
  from fold_commits_page_Inr [OF e] e show ?thesis by simp
qed

lemma full_page_D:
  "full_page ev \<Longrightarrow> \<exists>xs. settled (snd ev) = Inr (PArr xs) \<and> perPage \<le> length xs \<and> page_records ev = Some xs"
  by (auto simp: full_page_def page_records_def split: option.splits sum.splits page.splits)

lemma perPage_pos: "0 < perPage" by (simp add: perPage_def)

lemma contributors_loop_full:
  assumes "settled resp = Inr (PArr xs)" and "perPage \<le> length xs"
  shows "contributors_loop ((now, resp) # es) rli acc page reqs =
         contributors_loop es (quota_after [(now, resp)] rli) (acc @ xs) (page + 1) (reqs @ [page])"
proof -
  from assms perPage_pos have "xs \<noteq> []" by auto
  with assms show ?thesis by (simp add: snd_fetch Let_def)
qed

lemma contributors_loop_prefix:
  "\<forall>ev \<in> set pre. full_page ev \<Longrightarrow>
   contributors_loop (pre @ rest) rli acc page reqs =
   contributors_loop rest (quota_after pre rli) (acc @ pages_of pre) (page + length pre)
     (reqs @ [page ..< page + length pre])"
proof (induction pre arbitrary: rli acc page reqs)
  case Nil
  then show ?case by (simp add: pages_of_def)
next
  case (Cons ev pre)
  obtain now resp where ev: "ev = (now, resp)" by (cases ev)
  from Cons.prems have "full_page ev" by simp
  from full_page_D [OF this] ev obtain xs where
    s: "settled resp = Inr (PArr xs)" and l: "perPage \<le> length xs" and p: "page_records ev = Some xs"
    by auto
  from Cons.prems have rest: "\<forall>ev \<in> set pre. full_page ev" by simp
  have u: "[page ..< page + length (ev # pre)] = page # [page + 1 ..< page + 1 + length pre]"
    by (subst upt_rec) simp
  have "contributors_loop ((ev # pre) @ rest) rli acc page reqs =
        contributors_loop (pre @ rest) (quota_after [(now, resp)] rli) (acc @ xs) (page + 1) (reqs @ [page])"
    using contributors_loop_full [OF s l] ev by simp
  also have "\<dots> = contributors_loop rest (quota_after pre (quota_after [(now, resp)] rli))
                     ((acc @ xs) @ pages_of pre) (page + 1 + length pre)
                     ((reqs @ [page]) @ [page + 1 ..< page + 1 + length pre])"
    by (rule Cons.IH [OF rest])
  finally show ?case using ev p u by (simp add: pages_of_def)
qed

lemma contributors_loop_last:
  assumes "\<not> full_page (now, resp)"
  shows "contributors_loop ((now, resp) # rest) rli acc page reqs =
         \<lparr>quota = quota_after [(now, resp)] rli,
          records = acc @ pages_of [(now, resp)],
          requested = reqs @ [page],
          ending = (case settled resp of Inl e \<Rightarrow> Threw e | Inr p \<Rightarrow> Done)\<rparr>"
proof (cases "settled resp")
  case (Inl e)
  then show ?thesis by (simp add: snd_fetch Let_def pages_of_def page_records_def)
next
  case (Inr p)
  show ?thesis
  proof (cases p)
    case PNull
    with Inr show ?thesis by (simp add: snd_fetch Let_def pages_of_def page_records_def)
  next
    case (PArr xs)
    with Inr assms have "length xs < perPage"
      by (simp add: full_page_def page_records_def)
    with Inr PArr show ?thesis by (simp add: snd_fetch Let_def pages_of_def page_records_def)
  qed
qed

lemma commits_loop_full:
  assumes "settled resp = Inr (PArr xs)" and "perPage \<le> length xs" and "page_rows dp xs = Inr rows"
  shows "commits_loop dp ((now, resp) # es) rli acc page n reqs =
         commits_loop dp es (quota_after [(now, resp)] rli) (acc @ rows) (page + 1)
           (n + excluded_in xs) (reqs @ [page])"
proof -
  from assms perPage_pos have "xs \<noteq> []" by auto
  with assms show ?thesis by (simp add: snd_fetch Let_def fold_commits_page_ok)
qed

lemma full_commits_page_D:
  "full_commits_page dp ev \<Longrightarrow>
   \<exists>xs rows. settled (snd ev) = Inr (PArr xs) \<and> perPage \<le> length xs \<and> page_records ev = Some xs
      \<and> page_rows dp xs = Inr rows"
  by (auto simp: full_commits_page_def page_records_def split: option.splits sum.splits page.splits)

lemma commits_loop_prefix:
  "\<forall>ev \<in> set pre. full_commits_page dp ev \<Longrightarrow>
   commits_loop dp (pre @ rest) rli acc page n reqs =
   commits_loop dp rest (quota_after pre rli) (acc @ rows_of dp pre) (page + length pre)
     (n + excluded_of pre) (reqs @ [page ..< page + length pre])"
proof (induction pre arbitrary: rli acc page n reqs)
  case Nil
  then show ?case by (simp add: rows_of_def excluded_of_def pages_of_def excluded_in_def)
next
  case (Cons ev pre)
  obtain now resp where ev: "ev = (now, resp)" by (cases ev)
  from Cons.prems have "full_commits_page dp ev" by simp
  from full_commits_page_D [OF this] ev obtain xs rows where
    s: "settled resp = Inr (PArr xs)" and l: "perPage \<le> length xs"
    and p: "page_records ev = Some xs" and r: "page_rows dp xs = Inr rows"
    by auto
  from Cons.prems have rest: "\<forall>ev \<in> set pre. full_commits_page dp ev" by simp
  have u: "[page ..< page + length (ev # pre)] = page # [page + 1 ..< page + 1 + length pre]"
    by (subst upt_rec) simp
  have x: "excluded_of (ev # pre) = excluded_in xs + excluded_of pre"
    using p by (simp add: excluded_of_def pages_of_def excluded_in_def)
  have w: "rows_of dp (ev # pre) = rows @ rows_of dp pre"
    using p r by (simp add: rows_of_def)
  have "commits_loop dp ((ev # pre) @ rest) rli acc page n reqs =
        commits_loop dp (pre @ rest) (quota_after [(now, resp)] rli) (acc @ rows) (page + 1)
          (n + excluded_in xs) (reqs @ [page])"
    using commits_loop_full [OF s l r] ev by simp
  also have "\<dots> = commits_loop dp rest (quota_after pre (quota_after [(now, resp)] rli))
                     ((acc @ rows) @ rows_of dp pre) (page + 1 + length pre)
                     (n + excluded_in xs + excluded_of pre)
                     ((reqs @ [page]) @ [page + 1 ..< page + 1 + length pre])"
    by (rule Cons.IH [OF rest])
  finally show ?case using ev u x w by (simp add: add.assoc)
qed

lemma get_prop_Inl: "get_prop v k = Inl e \<Longrightarrow> e = TypeError"
  by (cases v) auto

lemma ebind_Inl: "ebind x f = Inl e \<Longrightarrow> x = Inl e \<or> (\<exists>y. x = Inr y \<and> f y = Inl e)"
  by (cases x) auto

lemma is_bot_commit_Inl: "is_bot_commit c = Inl e \<Longrightarrow> e = TypeError"
  unfolding is_bot_commit_def
  by (auto dest!: ebind_Inl dest: get_prop_Inl split: if_splits)

lemma commit_author_field_Inl: "commit_author_field c k = Inl e \<Longrightarrow> e = TypeError"
  unfolding commit_author_field_def
  by (auto dest!: ebind_Inl dest: get_prop_Inl split: if_splits)

lemma commit_AuthorLogin_Inl: "commit_AuthorLogin c = Inl e \<Longrightarrow> e = TypeError"
  unfolding commit_AuthorLogin_def
  by (auto dest!: ebind_Inl get_prop_Inl split: if_splits)

lemma commit_Message_Inl: "commit_Message c = Inl e \<Longrightarrow> e = TypeError"
  unfolding commit_Message_def
  by (auto dest!: ebind_Inl dest: get_prop_Inl split: jsval.splits)

lemma toISOString_Inl: "toISOString tv = Inl e \<Longrightarrow> e = RangeError"
  by (auto simp: toISOString_def split: option.splits)

lemma commit_Date_Inl: "commit_Date dp c = Inl e \<Longrightarrow> e = TypeError \<or> e = RangeError"
  unfolding commit_Date_def
  by (auto dest!: ebind_Inl dest: get_prop_Inl toISOString_Inl split: if_splits)

lemma commit_row_Inl: "commit_row dp c = Inl e \<Longrightarrow> e = TypeError \<or> e = RangeError"
  unfolding commit_row_def
  by (auto dest!: ebind_Inl
           dest: get_prop_Inl commit_AuthorLogin_Inl commit_author_field_Inl commit_Date_Inl
                 commit_Message_Inl)

lemma map_throwing_Inl: "map_throwing f xs = Inl e \<Longrightarrow> \<exists>x \<in> set xs. f x = Inl e"
  by (induction xs) (auto split: sum.splits)

lemma filter_bots_Inl: "filter_bots xs n = (n', Inl e) \<Longrightarrow> e = TypeError"
proof (induction xs arbitrary: n n')
  case Nil
  then show ?case by simp
next
  case (Cons c cs)
  then show ?case
    by (auto dest: is_bot_commit_Inl split: sum.splits if_splits prod.splits)
qed

lemma fold_commits_page_Inl:
  "fold_commits_page dp xs acc n = (n', Inl e) \<Longrightarrow> e = TypeError \<or> e = RangeError"
  unfolding fold_commits_page_def
  by (auto dest: filter_bots_Inl commit_row_Inl dest!: map_throwing_Inl
           split: prod.splits sum.splits if_splits)

lemma settled_Inl: "settled resp = Inl e \<Longrightarrow> e \<noteq> TypeError \<and> e \<noteq> RangeError"
  by (cases resp) (auto simp: settled_def Let_def split: if_splits option.splits)

lemma contributors_requested_ext:
  "\<exists>more. requested (contributors_loop es rli acc page reqs) = reqs @ more"
proof (induction es arbitrary: rli acc page reqs)
  case Nil
  then show ?case by simp
next
  case (Cons ev es)
  obtain now resp where ev: "ev = (now, resp)" by (cases ev)
  show ?case
  proof (cases "full_page ev")
    case False
    with contributors_loop_last [of now resp es rli acc page reqs] ev
    show ?thesis by (simp del: contributors_loop.simps)
  next
    case True
    from full_page_D [OF this] ev obtain xs where
      s: "settled resp = Inr (PArr xs)" and l: "perPage \<le> length xs" by auto
    from Cons.IH [of "quota_after [(now, resp)] rli" "acc @ xs" "page + 1" "reqs @ [page]"]
    show ?thesis using contributors_loop_full [OF s l] ev
      by (auto simp del: contributors_loop.simps)
  qed
qed

lemma contributors_requested_Cons:
  "\<exists>more. requested (contributors_loop (ev # es) rli acc page reqs) = reqs @ page # more"
proof -
  obtain now resp where ev: "ev = (now, resp)" by (cases ev)
  show ?thesis
  proof (cases "full_page ev")
    case False
    with contributors_loop_last [of now resp es rli acc page reqs] ev
    show ?thesis by (simp del: contributors_loop.simps)
  next
    case True
    from full_page_D [OF this] ev obtain xs where
      s: "settled resp = Inr (PArr xs)" and l: "perPage \<le> length xs" by auto
    from contributors_requested_ext
      [of es "quota_after [(now, resp)] rli" "acc @ xs" "page + 1" "reqs @ [page]"]
    show ?thesis using contributors_loop_full [OF s l] ev
      by (auto simp del: contributors_loop.simps)
  qed
qed

lemma observed_Cons:
  "observed (ev # es) = (case page_records ev of Some xs \<Rightarrow> length xs | None \<Rightarrow> 0) + observed es"
  by (simp add: observed_def)

lemma contributors_loop_count:
  "length (records (contributors_loop es rli acc page reqs)) =
   length acc + observed (take (length (requested (contributors_loop es rli acc page reqs)) - length reqs) es)"
proof (induction es arbitrary: rli acc page reqs)
  case Nil
  then show ?case by (simp add: observed_def)
next
  case (Cons ev es)
  obtain now resp where ev: "ev = (now, resp)" by (cases ev)
  show ?case
  proof (cases "full_page ev")
    case False
    with contributors_loop_last [of now resp es rli acc page reqs] ev
    show ?thesis
      by (simp add: observed_Cons pages_of_def observed_def del: contributors_loop.simps
               split: option.splits)
  next
    case True
    from full_page_D [OF this] ev obtain xs where
      s: "settled resp = Inr (PArr xs)" and l: "perPage \<le> length xs"
      and p: "page_records ev = Some xs" by auto
    let ?r = "contributors_loop es (quota_after [(now, resp)] rli) (acc @ xs) (page + 1) (reqs @ [page])"
    from contributors_requested_ext obtain more where m: "requested ?r = (reqs @ [page]) @ more"
      by blast
    have k: "length (requested ?r) - length reqs = Suc (length (requested ?r) - length (reqs @ [page]))"
      using m by simp
    have "length (records ?r) =
          length (acc @ xs) + observed (take (length (requested ?r) - length (reqs @ [page])) es)"
      by (rule Cons.IH)
    then show ?thesis
      using contributors_loop_full [OF s l] ev p k
      by (simp add: observed_Cons del: contributors_loop.simps)
  qed
qed

lemma commits_loop_Cons:
  "commits_loop dp ((now, resp) # es) rli acc page n reqs =
     (case settled resp of
        Inl e \<Rightarrow>
          \<lparr>quota = quota_after [(now, resp)] rli, records = acc, requested = reqs @ [page],
           ending = Threw e, filteredCommitsCount = n\<rparr>
      | Inr PNull \<Rightarrow>
          \<lparr>quota = quota_after [(now, resp)] rli, records = acc, requested = reqs @ [page],
           ending = Done, filteredCommitsCount = n\<rparr>
      | Inr (PArr xs) \<Rightarrow>
          if xs = [] then
            \<lparr>quota = quota_after [(now, resp)] rli, records = acc, requested = reqs @ [page],
             ending = Done, filteredCommitsCount = n\<rparr>
          else
            (case fold_commits_page dp xs acc n of
               (n', Inl e) \<Rightarrow>
                 \<lparr>quota = quota_after [(now, resp)] rli, records = acc, requested = reqs @ [page],
                  ending = Threw e, filteredCommitsCount = n'\<rparr>
             | (n', Inr acc') \<Rightarrow>
                 if length xs < perPage
                 then \<lparr>quota = quota_after [(now, resp)] rli, records = acc',
                       requested = reqs @ [page], ending = Done, filteredCommitsCount = n'\<rparr>
                 else commits_loop dp es (quota_after [(now, resp)] rli) acc' (page + 1) n'
                        (reqs @ [page])))"
  by (simp add: snd_fetch Let_def split: sum.splits page.splits prod.splits)

lemma commits_requested_ext:
  "\<exists>more. requested (commits_loop dp es rli acc page n reqs) = reqs @ more"
proof (induction es arbitrary: rli acc page n reqs)
  case Nil
  then show ?case by simp
next
  case (Cons ev es)
  obtain now resp where ev: "ev = (now, resp)" by (cases ev)
  have "\<And>acc' n'. \<exists>more. requested (commits_loop dp es (quota_after [(now, resp)] rli) acc'
                                   (page + 1) n' (reqs @ [page])) = reqs @ more"
  proof -
    fix acc' n'
    from Cons.IH [of "quota_after [(now, resp)] rli" acc' "page + 1" n' "reqs @ [page]"]
    show "\<exists>more. requested (commits_loop dp es (quota_after [(now, resp)] rli) acc'
                                   (page + 1) n' (reqs @ [page])) = reqs @ more"
      by auto
  qed
  then show ?case unfolding ev commits_loop_Cons
    by (auto split: sum.splits page.splits prod.splits)
qed

lemma commits_requested_Cons:
  "\<exists>more. requested (commits_loop dp (ev # es) rli acc page n reqs) = reqs @ page # more"
proof -
  obtain now resp where ev: "ev = (now, resp)" by (cases ev)
  have "\<And>acc' n'. \<exists>more. requested (commits_loop dp es (quota_after [(now, resp)] rli) acc'
                                   (page + 1) n' (reqs @ [page])) = reqs @ page # more"
  proof -
    fix acc' n'
    from commits_requested_ext
      [of dp es "quota_after [(now, resp)] rli" acc' "page + 1" n' "reqs @ [page]"]
    show "\<exists>more. requested (commits_loop dp es (quota_after [(now, resp)] rli) acc'
                                   (page + 1) n' (reqs @ [page])) = reqs @ page # more"
      by auto
  qed
  then show ?thesis unfolding ev commits_loop_Cons
    by (auto split: sum.splits page.splits prod.splits)
qed

lemma excluded_of_Cons:
  "excluded_of (ev # es) =
     (case page_records ev of Some xs \<Rightarrow> excluded_in xs | None \<Rightarrow> 0) + excluded_of es"
  by (simp add: excluded_of_def pages_of_def excluded_in_def split: option.splits)

lemma excluded_of_Nil: "excluded_of [] = 0"
  by (simp add: excluded_of_def pages_of_def excluded_in_def)

lemma observed_Nil: "observed [] = 0"
  by (simp add: observed_def)

lemma fold_commits_page_length:
  assumes "fold_commits_page dp xs acc n = (n', Inr acc')"
  shows "n' = n + excluded_in xs \<and> length acc' + excluded_in xs = length acc + length xs"
proof -
  from fold_commits_page_Inr [OF assms] obtain rows where
    n: "n' = n + excluded_in xs" and m: "map_throwing (commit_row dp) (surviving xs) = Inr rows"
    and a: "acc' = acc @ rows" by blast
  from map_throwing_length [OF m] have "length rows = length (surviving xs)" .
  with surviving_length [of xs] n a show ?thesis by simp
qed

lemma commits_loop_count:
  assumes "ending (commits_loop dp es rli acc page n reqs) \<noteq> Threw TypeError"
    and "ending (commits_loop dp es rli acc page n reqs) \<noteq> Threw RangeError"
  shows "filteredCommitsCount (commits_loop dp es rli acc page n reqs) =
           n + excluded_of (take (length (requested (commits_loop dp es rli acc page n reqs))
                                  - length reqs) es)
       \<and> length (records (commits_loop dp es rli acc page n reqs))
           + filteredCommitsCount (commits_loop dp es rli acc page n reqs) =
           length acc + n
           + observed (take (length (requested (commits_loop dp es rli acc page n reqs))
                             - length reqs) es)"
  using assms
proof (induction es arbitrary: rli acc page n reqs)
  case Nil
  then show ?case by (simp add: observed_Nil excluded_of_Nil)
next
  case (Cons ev es)
  obtain now resp where ev: "ev = (now, resp)" by (cases ev)
  let ?q = "quota_after [(now, resp)] rli"
  show ?case
  proof (cases "settled resp")
    case (Inl e)
    then show ?thesis unfolding ev commits_loop_Cons
      by (simp add: observed_Cons excluded_of_Cons observed_Nil excluded_of_Nil page_records_def)
  next
    case (Inr p)
    show ?thesis
    proof (cases p)
      case PNull
      with Inr show ?thesis unfolding ev commits_loop_Cons
        by (simp add: observed_Cons excluded_of_Cons observed_Nil excluded_of_Nil page_records_def)
    next
      case (PArr xs)
      have pr: "page_records (now, resp) = Some xs"
        using Inr PArr by (simp add: page_records_def)
      show ?thesis
      proof (cases "xs = []")
        case True
        with Inr PArr pr show ?thesis unfolding ev commits_loop_Cons
          by (simp add: observed_Cons excluded_of_Cons observed_Nil excluded_of_Nil
                excluded_in_def)
      next
        case False
        obtain n' r where f: "fold_commits_page dp xs acc n = (n', r)"
          by (cases "fold_commits_page dp xs acc n")
        show ?thesis
        proof (cases r)
          case (Inl e)
          from fold_commits_page_Inl f Inl have "e = TypeError \<or> e = RangeError" by blast
          moreover have "ending (commits_loop dp (ev # es) rli acc page n reqs) = Threw e"
            unfolding ev commits_loop_Cons using Inr PArr False f Inl by simp
          ultimately show ?thesis using Cons.prems by auto
        next
          case (Inr acc')
          from fold_commits_page_length f Inr have
            n': "n' = n + excluded_in xs" and
            a': "length acc' + excluded_in xs = length acc + length xs" by blast+
          show ?thesis
          proof (cases "length xs < perPage")
            case True
            have "commits_loop dp (ev # es) rli acc page n reqs =
                  \<lparr>quota = ?q, records = acc', requested = reqs @ [page], ending = Done,
                   filteredCommitsCount = n'\<rparr>"
              unfolding ev commits_loop_Cons using \<open>settled resp = Inr p\<close> PArr False f Inr True
              by simp
            then show ?thesis using n' a' pr ev
              by (simp add: observed_Cons excluded_of_Cons observed_Nil excluded_of_Nil)
          next
            case nf: False
            let ?r = "commits_loop dp es ?q acc' (page + 1) n' (reqs @ [page])"
            have step: "commits_loop dp (ev # es) rli acc page n reqs = ?r"
              unfolding ev commits_loop_Cons using \<open>settled resp = Inr p\<close> PArr False f Inr nf
              by simp
            from commits_requested_ext obtain more where
              m: "requested ?r = (reqs @ [page]) @ more" by blast
            have k: "length (requested ?r) - length reqs
                     = Suc (length (requested ?r) - length (reqs @ [page]))"
              using m by simp
            from Cons.prems step have e1: "ending ?r \<noteq> Threw TypeError"
              and e2: "ending ?r \<noteq> Threw RangeError" by simp_all
            from Cons.IH [OF e1 e2] show ?thesis
              unfolding step k using n' a' pr ev
              by (simp add: observed_Cons excluded_of_Cons)
          qed
        qed
      qed
    qed
  qed
qed

lemma fst_processAllContributors:
  "fst (processAllContributors es w rli) = contributors_loop es rli [] 1 []"
  by (simp add: processAllContributors_def Let_def)

lemma fst_processAllCommits:
  "fst (processAllCommits dp es w rli) = commits_loop dp es rli [] 1 0 []"
  by (simp add: processAllCommits_def Let_def)

lemma snd_processAllContributors:
  "snd (processAllContributors es w rli) =
     (case ending (contributors_loop es rli [] 1 []) of
        Threw e \<Rightarrow> ErrorReported e
      | Pending \<Rightarrow> StillFetching
      | Done \<Rightarrow> contributors_export w (records (contributors_loop es rli [] 1 [])))"
  by (simp only: processAllContributors_def Let_def snd_conv)

lemma snd_processAllCommits:
  "snd (processAllCommits dp es w rli) =
     (case ending (commits_loop dp es rli [] 1 0 []) of
        Threw e \<Rightarrow> ErrorReported e
      | Pending \<Rightarrow> StillFetching
      | Done \<Rightarrow> commits_export w (records (commits_loop dp es rli [] 1 0 [])))"
  by (simp only: processAllCommits_def Let_def snd_conv)

lemma upt_from_1: "[1 ..< 1 + k] @ [1 + k] = [1 ..< k + 2]"
  by simp

lemma short_not_full: "page_records ev = Some xs \<Longrightarrow> length xs < perPage \<Longrightarrow> \<not> full_page ev"
  by (simp add: full_page_def)

lemma short_not_full_commits:
  "page_records ev = Some xs \<Longrightarrow> length xs < perPage \<Longrightarrow> \<not> full_commits_page dp ev"
  by (simp add: full_commits_page_def)

lemma failed_not_full: "settled (snd ev) = Inl e \<Longrightarrow> \<not> full_page ev"
  by (simp add: full_page_def page_records_def)

lemma page_records_settled: "page_records ev = Some xs \<Longrightarrow> settled (snd ev) = Inr (PArr xs)"
  by (auto simp: page_records_def split: sum.splits page.splits)

lemma contributors_run_to_last:
  assumes "\<forall>e \<in> set pre. full_page e" and "\<not> full_page ev"
  shows "contributors_loop (pre @ ev # rest) rli [] 1 [] =
         \<lparr>quota = quota_after [ev] (quota_after pre rli),
          records = pages_of pre @ pages_of [ev],
          requested = [1 ..< length pre + 2],
          ending = (case settled (snd ev) of Inl e \<Rightarrow> Threw e | Inr p \<Rightarrow> Done)\<rparr>"
proof -
  obtain now resp where ev: "ev = (now, resp)" by (cases ev)
  have "contributors_loop (pre @ ev # rest) rli [] 1 [] =
        contributors_loop (ev # rest) (quota_after pre rli) ([] @ pages_of pre) (1 + length pre)
          ([] @ [1 ..< 1 + length pre])"
    by (rule contributors_loop_prefix [OF assms(1)])
  also have "\<dots> = \<lparr>quota = quota_after [ev] (quota_after pre rli),
          records = pages_of pre @ pages_of [ev],
          requested = [1 ..< 1 + length pre] @ [1 + length pre],
          ending = (case settled (snd ev) of Inl e \<Rightarrow> Threw e | Inr p \<Rightarrow> Done)\<rparr>"
    using contributors_loop_last [of now resp rest "quota_after pre rli" "pages_of pre"
        "1 + length pre" "[1 ..< 1 + length pre]"] assms(2) ev
    by (simp del: contributors_loop.simps)
  finally show ?thesis by (simp only: upt_from_1)
qed

lemma commits_run_to_last:
  assumes "\<forall>e \<in> set pre. full_commits_page dp e"
  shows "commits_loop dp (pre @ ev # rest) rli [] 1 0 [] =
         commits_loop dp (ev # rest) (quota_after pre rli) (rows_of dp pre) (1 + length pre)
           (excluded_of pre) [1 ..< 1 + length pre]"
  using commits_loop_prefix [OF assms, of "ev # rest" rli "[]" 1 0 "[]"] by simp

lemma commits_loop_short:
  assumes "page_records (now, resp) = Some xs" and "length xs < perPage"
  shows "requested (commits_loop dp ((now, resp) # rest) rli acc page n reqs) = reqs @ [page]
       \<and> ending (commits_loop dp ((now, resp) # rest) rli acc page n reqs) =
           (case page_rows dp xs of Inr rows \<Rightarrow> Done | Inl e \<Rightarrow> Threw e)"
proof -
  from page_records_settled [OF assms(1)] have s: "settled resp = Inr (PArr xs)" by simp
  show ?thesis
  proof (cases "xs = []")
    case True
    with s show ?thesis unfolding commits_loop_Cons
      by (simp add: page_rows_def fold_commits_page_def)
  next
    case False
    obtain n' r where f: "fold_commits_page dp xs acc n = (n', r)"
      by (cases "fold_commits_page dp xs acc n")
    then have "r = snd (fold_commits_page dp xs acc n)" by simp
    then have r: "r = (case page_rows dp xs of Inl e \<Rightarrow> Inl e | Inr rows \<Rightarrow> Inr (acc @ rows))"
      by (simp add: fold_commits_page_snd)
    show ?thesis unfolding commits_loop_Cons using s False f r assms(2)
      by (simp split: sum.splits)
  qed
qed

lemma commits_loop_failed:
  assumes "settled resp = Inl e"
  shows "commits_loop dp ((now, resp) # rest) rli acc page n reqs =
         \<lparr>quota = quota_after [(now, resp)] rli, records = acc, requested = reqs @ [page],
          ending = Threw e, filteredCommitsCount = n\<rparr>"
  unfolding commits_loop_Cons using assms by simp

lemma filter_bots_replicate:
  "is_bot_commit c = Inr False \<Longrightarrow> filter_bots (replicate k c) n = (n, Inr (replicate k c))"
  by (induction k) simp_all

lemma filter_bots_replicate_bot:
  "is_bot_commit c = Inr True \<Longrightarrow> filter_bots (replicate k c) n = (n + k, Inr [])"
  by (induction k arbitrary: n) simp_all

lemma map_throwing_replicate:
  "f c = Inr r \<Longrightarrow> map_throwing f (replicate k c) = Inr (replicate k r)"
  by (induction k) simp_all

lemma page_rows_replicate:
  assumes "is_bot_commit c = Inr False" and "commit_row dp c = Inr r"
  shows "page_rows dp (replicate k c) = Inr (replicate k r)"
  using assms
  by (simp add: page_rows_def fold_commits_page_def filter_bots_replicate map_throwing_replicate)

lemma page_rows_replicate_bot:
  assumes "is_bot_commit c = Inr True"
  shows "page_rows dp (replicate k c) = Inr []"
  using assms by (simp add: page_rows_def fold_commits_page_def filter_bots_replicate_bot)

lemma page_records_Http:
  "page_records (now, Http h1 h2 200 (Some (PArr xs))) = Some xs"
  by (simp add: page_records_def settled_def Let_def)

lemma settled_NetError: "settled (NetError b) = Inl (if b then DnsLookupFailed else HttpsRequestFailed)"
  by (simp add: settled_def)

lemma plain_commit_not_bot:
  "is_bot_commit (JObj [(''sha'', JStr ''abc''), (''author'', JObj [(''login'', JStr ''octocat'')]),
           (''commit'', JObj [(''author'', JNull), (''message'', JStr ''fix'')])]) = Inr False"
  by (simp add: is_bot_commit_def BOT_USER_TO_FILTER_def)

lemma plain_commit_row:
  "commit_row dp (JObj [(''sha'', JStr ''abc''), (''author'', JObj [(''login'', JStr ''octocat'')]),
           (''commit'', JObj [(''author'', JNull), (''message'', JStr ''fix'')])])
   = Inr [(''SHA'', JStr ''abc''), (''AuthorLogin'', JStr ''octocat''), (''AuthorName'', JStr ''N/A''),
          (''AuthorEmail'', JStr ''N/A''), (''Date'', JStr ''N/A''), (''Message'', JStr ''fix'')]"
  by (simp add: commit_row_def commit_AuthorLogin_def commit_author_field_def commit_Date_def
        commit_Message_def newline_def)

lemma pages_of_failed: "settled (snd ev) = Inl e \<Longrightarrow> pages_of [ev] = []"
  by (simp add: pages_of_def page_records_def)

lemma settled_Http_ok: "settled (Http h1 h2 200 (Some p)) = Inr p"
  by (simp add: settled_def Let_def)

lemma bot_commit_is_bot:
  "is_bot_commit (JObj [(''sha'', JStr ''def''), (''author'', JObj [(''login'', JStr ''dependabot[bot]'')]),
           (''commit'', JObj [(''author'', JNull), (''message'', JStr ''bump'')])]) = Inr True"
  by (simp add: is_bot_commit_def BOT_USER_TO_FILTER_def)

lemma dateless_commit_not_bot:
  "is_bot_commit (JObj [(''sha'', JStr ''abc''), (''author'', JNull),
                 (''commit'',
                  JObj [(''author'',
                         JObj [(''name'', JStr ''J. Smith''), (''email'', JStr ''j@example.org'')]),
                        (''message'', JStr ''fix'')])]) = Inr False"
  by (simp add: is_bot_commit_def)

lemma dateless_commit_row:
  "commit_row dp (JObj [(''sha'', JStr ''abc''), (''author'', JNull),
                 (''commit'',
                  JObj [(''author'',
                         JObj [(''name'', JStr ''J. Smith''), (''email'', JStr ''j@example.org'')]),
                        (''message'', JStr ''fix'')])]) = Inl RangeError"
  by (simp add: commit_row_def commit_Date_def commit_AuthorLogin_def commit_author_field_def
        commit_Message_def toISOString_def)

lemma excluded_in_replicate_bot:
  "is_bot_commit c = Inr True \<Longrightarrow> excluded_in (replicate k c) = k"
  by (simp add: excluded_in_def)

subsection \<open>Pagination\<close>

text \<open>
  Claim C4, amended. In a run that starts with pages of the configured page size whose
  fold completes without an exception (the fold of a contributors page never throws): a
  following page whose raw length is below the page size (an empty page included) is
  the last one requested, whatever the server would answer afterwards; after the full
  pages the next page number is requested, and a harvester that has only met such full
  pages is still fetching. The short page ends the contributors loop by
  \<^verbatim>\<open>break\<close>, and the commits loop by \<^verbatim>\<open>break\<close> or by the exception of its
  fold, in both cases without a further request.
\<close>

theorem pagination_follows_raw_page_length:
  "((\<forall>e \<in> set pre. full_page e) \<and> page_records ev = Some xs \<and> length xs < perPage \<longrightarrow>
        requested (fst (processAllContributors (pre @ ev # rest) w rli)) = [1 ..< length pre + 2]
      \<and> ending (fst (processAllContributors (pre @ ev # rest) w rli)) = Done)
   \<and> ((\<forall>e \<in> set pre. full_page e) \<longrightarrow>
        (\<exists>more. requested (fst (processAllContributors (pre @ ev # rest) w rli))
                 = [1 ..< length pre + 2] @ more)
      \<and> ending (fst (processAllContributors pre w rli)) = Pending)
   \<and> ((\<forall>e \<in> set pre'. full_commits_page dp e) \<and> page_records ev' = Some xs'
        \<and> length xs' < perPage \<longrightarrow>
        requested (fst (processAllCommits dp (pre' @ ev' # rest') w rli)) = [1 ..< length pre' + 2]
      \<and> ending (fst (processAllCommits dp (pre' @ ev' # rest') w rli))
          = (case page_rows dp xs' of Inr rows \<Rightarrow> Done | Inl e \<Rightarrow> Threw e))
   \<and> ((\<forall>e \<in> set pre'. full_commits_page dp e) \<longrightarrow>
        (\<exists>more. requested (fst (processAllCommits dp (pre' @ ev' # rest') w rli))
                 = [1 ..< length pre' + 2] @ more)
      \<and> ending (fst (processAllCommits dp pre' w rli)) = Pending)"
proof -
  have a: "requested (fst (processAllContributors (pre @ ev # rest) w rli)) = [1 ..< length pre + 2]
      \<and> ending (fst (processAllContributors (pre @ ev # rest) w rli)) = Done"
    if f: "\<forall>e \<in> set pre. full_page e" and p: "page_records ev = Some xs" and l: "length xs < perPage"
  proof -
    from short_not_full [OF p l] have nf: "\<not> full_page ev" .
    from page_records_settled [OF p] have s: "settled (snd ev) = Inr (PArr xs)" .
    show ?thesis
      unfolding fst_processAllContributors contributors_run_to_last [OF f nf] using s by simp
  qed
  have b: "(\<exists>more. requested (fst (processAllContributors (pre @ ev # rest) w rli))
                 = [1 ..< length pre + 2] @ more)
      \<and> ending (fst (processAllContributors pre w rli)) = Pending"
    if f: "\<forall>e \<in> set pre. full_page e"
  proof -
    have "contributors_loop (pre @ ev # rest) rli [] 1 [] =
          contributors_loop (ev # rest) (quota_after pre rli) ([] @ pages_of pre) (1 + length pre)
            ([] @ [1 ..< 1 + length pre])"
      by (rule contributors_loop_prefix [OF f])
    moreover from contributors_requested_Cons obtain more where
      "requested (contributors_loop (ev # rest) (quota_after pre rli) ([] @ pages_of pre)
          (1 + length pre) ([] @ [1 ..< 1 + length pre]))
       = ([] @ [1 ..< 1 + length pre]) @ (1 + length pre) # more" by blast
    ultimately have "requested (contributors_loop (pre @ ev # rest) rli [] 1 [])
       = ([1 ..< 1 + length pre] @ [1 + length pre]) @ more" by simp
    then have 1: "\<exists>more. requested (fst (processAllContributors (pre @ ev # rest) w rli))
                 = [1 ..< length pre + 2] @ more"
      unfolding fst_processAllContributors upt_from_1 by blast
    from contributors_loop_prefix [OF f, of "[]" rli "[]" 1 "[]"]
    have 2: "ending (fst (processAllContributors pre w rli)) = Pending"
      unfolding fst_processAllContributors by simp
    from 1 2 show ?thesis by blast
  qed
  have c: "requested (fst (processAllCommits dp (pre' @ ev' # rest') w rli)) = [1 ..< length pre' + 2]
      \<and> ending (fst (processAllCommits dp (pre' @ ev' # rest') w rli))
          = (case page_rows dp xs' of Inr rows \<Rightarrow> Done | Inl e \<Rightarrow> Threw e)"
    if f: "\<forall>e \<in> set pre'. full_commits_page dp e" and p: "page_records ev' = Some xs'"
      and l: "length xs' < perPage"
  proof -
    obtain now resp where ev: "ev' = (now, resp)" by (cases ev')
    from commits_loop_short [OF p [unfolded ev] l, of dp rest' "quota_after pre' rli"
        "rows_of dp pre'" "1 + length pre'" "excluded_of pre'" "[1 ..< 1 + length pre']"]
    show ?thesis
      unfolding fst_processAllCommits commits_run_to_last [OF f] ev upt_from_1 .
  qed
  have d: "(\<exists>more. requested (fst (processAllCommits dp (pre' @ ev' # rest') w rli))
                 = [1 ..< length pre' + 2] @ more)
      \<and> ending (fst (processAllCommits dp pre' w rli)) = Pending"
    if f: "\<forall>e \<in> set pre'. full_commits_page dp e"
  proof -
    from commits_requested_Cons obtain more where
      "requested (commits_loop dp (ev' # rest') (quota_after pre' rli) (rows_of dp pre')
          (1 + length pre') (excluded_of pre') [1 ..< 1 + length pre'])
       = [1 ..< 1 + length pre'] @ (1 + length pre') # more" by blast
    then have "requested (commits_loop dp (pre' @ ev' # rest') rli [] 1 0 [])
       = ([1 ..< 1 + length pre'] @ [1 + length pre']) @ more"
      unfolding commits_run_to_last [OF f] by simp
    then have 1: "\<exists>more. requested (fst (processAllCommits dp (pre' @ ev' # rest') w rli))
                 = [1 ..< length pre' + 2] @ more"
      unfolding fst_processAllCommits upt_from_1 by blast
    from commits_loop_prefix [OF f, of "[]" rli "[]" 1 0 "[]"]
    have 2: "ending (fst (processAllCommits dp pre' w rli)) = Pending"
      unfolding fst_processAllCommits by simp
    from 1 2 show ?thesis by blast
  qed
  from a b c d show ?thesis by blast
qed

text \<open>A full page of 100 records, a page of one record, and a request that is never issued.\<close>

theorem pagination_follows_raw_page_length_witness:
  "requested (fst (processAllContributors
      [(0, Http None None 200 (Some (PArr (replicate 100 (JObj [(''login'', JStr ''octocat'')]))))),
       (0, Http None None 200 (Some (PArr [JObj [(''login'', JStr ''hubot'')]]))),
       (0, NetError False)] True initial_rateLimitInfo)) = [1, 2]
   \<and> ending (fst (processAllContributors
      [(0, Http None None 200 (Some (PArr (replicate 100 (JObj [(''login'', JStr ''octocat'')]))))),
       (0, Http None None 200 (Some (PArr [JObj [(''login'', JStr ''hubot'')]]))),
       (0, NetError False)] True initial_rateLimitInfo)) = Done
   \<and> ending (fst (processAllContributors
      [(0, Http None None 200 (Some (PArr (replicate 100 (JObj [(''login'', JStr ''octocat'')])))))]
      True initial_rateLimitInfo)) = Pending
   \<and> requested (fst (processAllCommits (\<lambda>s. None)
      [(0, Http None None 200 (Some (PArr (replicate 100
          (JObj [(''sha'', JStr ''abc''), (''author'', JObj [(''login'', JStr ''octocat'')]),
                 (''commit'', JObj [(''author'', JNull), (''message'', JStr ''fix'')])]))))),
       (0, Http None None 200 (Some (PArr
          [JObj [(''sha'', JStr ''abc''), (''author'', JObj [(''login'', JStr ''octocat'')]),
                 (''commit'', JObj [(''author'', JNull), (''message'', JStr ''fix'')])]]))),
       (0, NetError False)] True initial_rateLimitInfo)) = [1, 2]
   \<and> ending (fst (processAllCommits (\<lambda>s. None)
      [(0, Http None None 200 (Some (PArr (replicate 100
          (JObj [(''sha'', JStr ''abc''), (''author'', JObj [(''login'', JStr ''octocat'')]),
                 (''commit'', JObj [(''author'', JNull), (''message'', JStr ''fix'')])]))))),
       (0, Http None None 200 (Some (PArr
          [JObj [(''sha'', JStr ''abc''), (''author'', JObj [(''login'', JStr ''octocat'')]),
                 (''commit'', JObj [(''author'', JNull), (''message'', JStr ''fix'')])]]))),
       (0, NetError False)] True initial_rateLimitInfo)) = Done"
proof -
  let ?c = "JObj [(''login'', JStr ''octocat'')]"
  let ?h = "JObj [(''login'', JStr ''hubot'')]"
  let ?k = "JObj [(''sha'', JStr ''abc''), (''author'', JObj [(''login'', JStr ''octocat'')]),
                 (''commit'', JObj [(''author'', JNull), (''message'', JStr ''fix'')])]"
  let ?pre = "[(0::int, Http None None 200 (Some (PArr (replicate 100 ?c))))]"
  let ?ev = "(0::int, Http None None 200 (Some (PArr [?h])))"
  let ?rest = "[(0::int, NetError False)]"
  let ?pre' = "[(0::int, Http None None 200 (Some (PArr (replicate 100 ?k))))]"
  let ?ev' = "(0::int, Http None None 200 (Some (PArr [?k])))"
  let ?dp = "\<lambda>s :: string. None :: int option"
  have h1: "\<forall>e \<in> set ?pre. full_page e"
    by (simp add: full_page_def page_records_Http perPage_def)
  have h2: "page_records ?ev = Some [?h]" by (rule page_records_Http)
  have h3: "length [?h] < perPage" by (simp add: perPage_def)
  have r100: "page_rows ?dp (replicate 100 ?k) = Inr (replicate 100
      [(''SHA'', JStr ''abc''), (''AuthorLogin'', JStr ''octocat''), (''AuthorName'', JStr ''N/A''),
       (''AuthorEmail'', JStr ''N/A''), (''Date'', JStr ''N/A''), (''Message'', JStr ''fix'')])"
    by (rule page_rows_replicate [OF plain_commit_not_bot plain_commit_row])
  have h4: "\<forall>e \<in> set ?pre'. full_commits_page ?dp e"
    by (simp add: full_commits_page_def page_records_Http perPage_def r100)
  have h5: "page_records ?ev' = Some [?k]" by (rule page_records_Http)
  have h6: "length [?k] < perPage" by (simp add: perPage_def)
  have r1: "page_rows ?dp [?k] = Inr [
      [(''SHA'', JStr ''abc''), (''AuthorLogin'', JStr ''octocat''), (''AuthorName'', JStr ''N/A''),
       (''AuthorEmail'', JStr ''N/A''), (''Date'', JStr ''N/A''), (''Message'', JStr ''fix'')]]"
    using page_rows_replicate [OF plain_commit_not_bot plain_commit_row, of ?dp "Suc 0"] by simp
  have u: "[1 ..< length ?pre + 2] = [1, 2]" "[1 ..< length ?pre' + 2] = [1, 2]"
    by (simp_all add: upt_rec)
  from pagination_follows_raw_page_length
    [where pre = ?pre and ev = ?ev and xs = "[?h]" and rest = ?rest and w = True
       and rli = initial_rateLimitInfo and pre' = ?pre' and ev' = ?ev' and xs' = "[?k]"
       and rest' = ?rest and dp = ?dp]
    h1 h2 h3 h4 h5 h6
  have "requested (fst (processAllContributors (?pre @ ?ev # ?rest) True initial_rateLimitInfo))
          = [1 ..< length ?pre + 2]
      \<and> ending (fst (processAllContributors (?pre @ ?ev # ?rest) True initial_rateLimitInfo)) = Done
      \<and> ending (fst (processAllContributors ?pre True initial_rateLimitInfo)) = Pending
      \<and> requested (fst (processAllCommits ?dp (?pre' @ ?ev' # ?rest) True initial_rateLimitInfo))
          = [1 ..< length ?pre' + 2]
      \<and> ending (fst (processAllCommits ?dp (?pre' @ ?ev' # ?rest) True initial_rateLimitInfo))
          = (case page_rows ?dp [?k] of Inr rows \<Rightarrow> Done | Inl e \<Rightarrow> Threw e)"
    by blast
  then show ?thesis unfolding u r1 by simp
qed

text \<open>
  Claim C4, as stated: the harvester fetches the next page after every page of exactly
  the configured page size. A commits page of 100 records, the first of them with a
  \<^verbatim>\<open>commit.author\<close> that has no date, throws while it is folded: the run ends in
  the \<^verbatim>\<open>catch\<close> and the second page, which the server would answer, is never
  requested.
\<close>

theorem full_commits_page_with_throwing_fold_ends_harvest:
  "length (JObj [(''sha'', JStr ''abc''), (''author'', JNull),
                 (''commit'',
                  JObj [(''author'',
                         JObj [(''name'', JStr ''J. Smith''), (''email'', JStr ''j@example.org'')]),
                        (''message'', JStr ''fix'')])]
           # replicate 99
               (JObj [(''sha'', JStr ''abc''), (''author'', JObj [(''login'', JStr ''octocat'')]),
                      (''commit'', JObj [(''author'', JNull), (''message'', JStr ''fix'')])]))
     = perPage
   \<and> requested (fst (processAllCommits parse_nothing
      [(0, Http None None 200 (Some (PArr
          (JObj [(''sha'', JStr ''abc''), (''author'', JNull),
                 (''commit'',
                  JObj [(''author'',
                         JObj [(''name'', JStr ''J. Smith''), (''email'', JStr ''j@example.org'')]),
                        (''message'', JStr ''fix'')])]
           # replicate 99
               (JObj [(''sha'', JStr ''abc''), (''author'', JObj [(''login'', JStr ''octocat'')]),
                      (''commit'', JObj [(''author'', JNull), (''message'', JStr ''fix'')])]))))),
       (0, Http None None 200 (Some (PArr
          [JObj [(''sha'', JStr ''abc''), (''author'', JObj [(''login'', JStr ''octocat'')]),
                 (''commit'', JObj [(''author'', JNull), (''message'', JStr ''fix'')])]])))]
      True initial_rateLimitInfo)) = [1]
   \<and> ending (fst (processAllCommits parse_nothing
      [(0, Http None None 200 (Some (PArr
          (JObj [(''sha'', JStr ''abc''), (''author'', JNull),
                 (''commit'',
                  JObj [(''author'',
                         JObj [(''name'', JStr ''J. Smith''), (''email'', JStr ''j@example.org'')]),
                        (''message'', JStr ''fix'')])]
           # replicate 99
               (JObj [(''sha'', JStr ''abc''), (''author'', JObj [(''login'', JStr ''octocat'')]),
                      (''commit'', JObj [(''author'', JNull), (''message'', JStr ''fix'')])]))))),
       (0, Http None None 200 (Some (PArr
          [JObj [(''sha'', JStr ''abc''), (''author'', JObj [(''login'', JStr ''octocat'')]),
                 (''commit'', JObj [(''author'', JNull), (''message'', JStr ''fix'')])]])))]
      True initial_rateLimitInfo)) = Threw RangeError"
proof -
  let ?d = "JObj [(''sha'', JStr ''abc''), (''author'', JNull),
                 (''commit'',
                  JObj [(''author'',
                         JObj [(''name'', JStr ''J. Smith''), (''email'', JStr ''j@example.org'')]),
                        (''message'', JStr ''fix'')])]"
  let ?k = "JObj [(''sha'', JStr ''abc''), (''author'', JObj [(''login'', JStr ''octocat'')]),
                 (''commit'', JObj [(''author'', JNull), (''message'', JStr ''fix'')])]"
  let ?xs = "?d # replicate 99 ?k"
  let ?rest = "[(0::int, Http None None 200 (Some (PArr [?k])))]"
  have len: "length ?xs = perPage" by (simp add: perPage_def)
  have fb: "filter_bots ?xs 0 = (0, Inr ?xs)"
    by (simp add: dateless_commit_not_bot filter_bots_replicate [OF plain_commit_not_bot])
  have mt: "map_throwing (commit_row parse_nothing) ?xs = Inl RangeError"
    by (simp add: dateless_commit_row)
  have f: "fold_commits_page parse_nothing ?xs [] 0 = (0, Inl RangeError)"
    unfolding fold_commits_page_def fb using mt by simp
  have l: "commits_loop parse_nothing ((0, Http None None 200 (Some (PArr ?xs))) # ?rest)
             initial_rateLimitInfo [] 1 0 [] =
     \<lparr>quota = quota_after [(0, Http None None 200 (Some (PArr ?xs)))] initial_rateLimitInfo,
      records = [], requested = [1], ending = Threw RangeError, filteredCommitsCount = 0\<rparr>"
    unfolding commits_loop_Cons by (simp add: settled_Http_ok f)
  show ?thesis unfolding fst_processAllCommits l using len by simp
qed

subsection \<open>Failed fetches\<close>

text \<open>
  Claim C2. After a failed page fetch the harvester should leave the accumulated records
  intact and still export them; the message of the \<^verbatim>\<open>else\<close> branch (lines 206 and
  296) counts a fetch error among the ways to the \<^verbatim>\<open>break\<close>, after which the
  accumulator is exported. A rejected fetch is an exception, though, and the export lies
  in the same \<^verbatim>\<open>try\<close> block: a contributors run whose first page holds 100
  records and whose second request fails on the network keeps its 100 records, reports
  the error and writes nothing.
\<close>

theorem failed_fetch_after_full_page_exports_nothing:
  "snd (processAllContributors
      [(0, Http None None 200 (Some (PArr (replicate 100 (JObj [(''login'', JStr ''octocat'')]))))),
       (0, NetError False)] True initial_rateLimitInfo)
     = ErrorReported HttpsRequestFailed
   \<and> records (fst (processAllContributors
      [(0, Http None None 200 (Some (PArr (replicate 100 (JObj [(''login'', JStr ''octocat'')]))))),
       (0, NetError False)] True initial_rateLimitInfo))
     = replicate 100 (JObj [(''login'', JStr ''octocat'')])"
proof -
  let ?c = "JObj [(''login'', JStr ''octocat'')]"
  let ?pre = "[(0::int, Http None None 200 (Some (PArr (replicate 100 ?c))))]"
  let ?ev = "(0::int, NetError False)"
  have h1: "\<forall>e \<in> set ?pre. full_page e"
    by (simp add: full_page_def page_records_Http perPage_def)
  have h2: "\<not> full_page ?ev" by (simp add: full_page_def page_records_def settled_NetError)
  have p: "pages_of ?pre = replicate 100 ?c" by (simp add: pages_of_def page_records_Http)
  have q: "pages_of [?ev] = []" by (simp add: pages_of_def page_records_def settled_NetError)
  from contributors_run_to_last [OF h1 h2, of "[]" initial_rateLimitInfo]
  have "contributors_loop (?pre @ [?ev]) initial_rateLimitInfo [] 1 [] =
         \<lparr>quota = quota_after [?ev] (quota_after ?pre initial_rateLimitInfo),
          records = replicate 100 ?c,
          requested = [1 ..< length ?pre + 2],
          ending = Threw HttpsRequestFailed\<rparr>"
    unfolding p q by (simp add: settled_NetError)
  then show ?thesis
    unfolding fst_processAllContributors snd_processAllContributors by simp
qed

text \<open>
  The same holds of every run of that shape, for both datasets: a fetch that fails after
  full pages takes the harvester to its \<^verbatim>\<open>catch\<close> with the accumulator as the
  earlier pages left it.
\<close>

lemma failed_fetch_takes_run_to_catch:
  "((\<forall>e \<in> set pre. full_page e) \<and> settled (snd ev) = Inl err \<longrightarrow>
        requested (fst (processAllContributors (pre @ ev # rest) w rli)) = [1 ..< length pre + 2]
      \<and> records (fst (processAllContributors (pre @ ev # rest) w rli)) = pages_of pre
      \<and> ending (fst (processAllContributors (pre @ ev # rest) w rli)) = Threw err
      \<and> snd (processAllContributors (pre @ ev # rest) w rli) = ErrorReported err)
   \<and> ((\<forall>e \<in> set pre'. full_commits_page dp e) \<and> settled (snd ev') = Inl err' \<longrightarrow>
        requested (fst (processAllCommits dp (pre' @ ev' # rest') w rli)) = [1 ..< length pre' + 2]
      \<and> records (fst (processAllCommits dp (pre' @ ev' # rest') w rli)) = rows_of dp pre'
      \<and> filteredCommitsCount (fst (processAllCommits dp (pre' @ ev' # rest') w rli))
          = excluded_of pre'
      \<and> ending (fst (processAllCommits dp (pre' @ ev' # rest') w rli)) = Threw err'
      \<and> snd (processAllCommits dp (pre' @ ev' # rest') w rli) = ErrorReported err')"
proof -
  have a: "requested (fst (processAllContributors (pre @ ev # rest) w rli)) = [1 ..< length pre + 2]
      \<and> records (fst (processAllContributors (pre @ ev # rest) w rli)) = pages_of pre
      \<and> ending (fst (processAllContributors (pre @ ev # rest) w rli)) = Threw err
      \<and> snd (processAllContributors (pre @ ev # rest) w rli) = ErrorReported err"
    if f: "\<forall>e \<in> set pre. full_page e" and s: "settled (snd ev) = Inl err"
  proof -
    from failed_not_full [OF s] have nf: "\<not> full_page ev" .
    show ?thesis
      unfolding fst_processAllContributors snd_processAllContributors
        contributors_run_to_last [OF f nf]
      using s by (simp add: pages_of_failed)
  qed
  have b: "requested (fst (processAllCommits dp (pre' @ ev' # rest') w rli)) = [1 ..< length pre' + 2]
      \<and> records (fst (processAllCommits dp (pre' @ ev' # rest') w rli)) = rows_of dp pre'
      \<and> filteredCommitsCount (fst (processAllCommits dp (pre' @ ev' # rest') w rli))
          = excluded_of pre'
      \<and> ending (fst (processAllCommits dp (pre' @ ev' # rest') w rli)) = Threw err'
      \<and> snd (processAllCommits dp (pre' @ ev' # rest') w rli) = ErrorReported err'"
    if f: "\<forall>e \<in> set pre'. full_commits_page dp e" and s: "settled (snd ev') = Inl err'"
  proof -
    obtain now resp where ev: "ev' = (now, resp)" by (cases ev')
    from s ev have s': "settled resp = Inl err'" by simp
    show ?thesis
      unfolding fst_processAllCommits snd_processAllCommits commits_run_to_last [OF f] ev
        commits_loop_failed [OF s']
      using upt_from_1 [of "length pre'"] by simp
  qed
  from a b show ?thesis by blast
qed

subsection \<open>Bot commits and accumulator size\<close>

lemma is_bot_commit_True:
  "is_bot_commit c = Inr True \<longleftrightarrow>
     (\<exists>author. get_prop c ''author'' = Inr author \<and> truthy author
        \<and> get_prop author ''login'' = Inr (JStr BOT_USER_TO_FILTER))"
proof (cases "get_prop c ''author''")
  case (Inl e)
  then show ?thesis by (simp add: is_bot_commit_def)
next
  case (Inr author)
  show ?thesis
  proof (cases "truthy author")
    case False
    with Inr show ?thesis by (simp add: is_bot_commit_def)
  next
    case True
    then obtain l where l: "get_prop author ''login'' = Inr l"
      by (cases author) auto
    with Inr True show ?thesis by (simp add: is_bot_commit_def)
  qed
qed

lemma observed_pages_of: "observed es = length (pages_of es)"
  by (induction es) (auto simp: observed_def pages_of_def split: option.splits)

lemma excluded_in_all: "\<forall>c \<in> set xs. is_bot_commit c = Inr True \<Longrightarrow> excluded_in xs = length xs"
  by (simp add: excluded_in_def)

text \<open>
  Claim C6, amended. The filter excludes exactly the records whose linked author login is
  the configured bot identity. When the fold of a fetched commits page completes, the
  counter has grown by the number of excluded records, the accumulator by the rows of
  the other records in page order, and the loop stops or requests the next page
  according to the raw length of the page alone.
\<close>

theorem bot_commits_excluded_and_counted:
  "(is_bot_commit c = Inr True \<longleftrightarrow>
      (\<exists>author. get_prop c ''author'' = Inr author \<and> truthy author
         \<and> get_prop author ''login'' = Inr (JStr BOT_USER_TO_FILTER)))
   \<and> (settled resp = Inr (PArr xs) \<and> fold_commits_page dp xs acc n = (n', Inr acc') \<longrightarrow>
         n' = n + length (filter (\<lambda>c. is_bot_commit c = Inr True) xs)
       \<and> (\<exists>rows. map_throwing (commit_row dp) (filter (\<lambda>c. is_bot_commit c \<noteq> Inr True) xs)
                    = Inr rows
                \<and> acc' = acc @ rows)
       \<and> commits_loop dp ((now, resp) # es) rli acc page n reqs =
           (if length xs < perPage
            then \<lparr>quota = quota_after [(now, resp)] rli, records = acc',
                  requested = reqs @ [page], ending = Done, filteredCommitsCount = n'\<rparr>
            else commits_loop dp es (quota_after [(now, resp)] rli) acc' (page + 1) n'
                   (reqs @ [page])))"
proof -
  have b: "n' = n + length (filter (\<lambda>c. is_bot_commit c = Inr True) xs)
       \<and> (\<exists>rows. map_throwing (commit_row dp) (filter (\<lambda>c. is_bot_commit c \<noteq> Inr True) xs)
                    = Inr rows
                \<and> acc' = acc @ rows)
       \<and> commits_loop dp ((now, resp) # es) rli acc page n reqs =
           (if length xs < perPage
            then \<lparr>quota = quota_after [(now, resp)] rli, records = acc',
                  requested = reqs @ [page], ending = Done, filteredCommitsCount = n'\<rparr>
            else commits_loop dp es (quota_after [(now, resp)] rli) acc' (page + 1) n'
                   (reqs @ [page]))"
    if s: "settled resp = Inr (PArr xs)" and f: "fold_commits_page dp xs acc n = (n', Inr acc')"
  proof -
    from fold_commits_page_Inr [OF f]
    have 1: "n' = n + length (filter (\<lambda>c. is_bot_commit c = Inr True) xs)
       \<and> (\<exists>rows. map_throwing (commit_row dp) (filter (\<lambda>c. is_bot_commit c \<noteq> Inr True) xs)
                    = Inr rows
                \<and> acc' = acc @ rows)"
      by (simp add: excluded_in_def surviving_def)
    have 2: "commits_loop dp ((now, resp) # es) rli acc page n reqs =
           (if length xs < perPage
            then \<lparr>quota = quota_after [(now, resp)] rli, records = acc',
                  requested = reqs @ [page], ending = Done, filteredCommitsCount = n'\<rparr>
            else commits_loop dp es (quota_after [(now, resp)] rli) acc' (page + 1) n'
                   (reqs @ [page]))"
    proof (cases "xs = []")
      case True
      with f have "n' = n" "acc' = acc" by (simp_all add: fold_commits_page_def)
      with True s show ?thesis unfolding commits_loop_Cons by (simp add: perPage_def)
    next
      case False
      with s f show ?thesis unfolding commits_loop_Cons by simp
    qed
    from 1 2 show ?thesis by blast
  qed
  from is_bot_commit_True [of c] b show ?thesis by blast
qed

text \<open>A page of two commits, one of them by the bot.\<close>

theorem bot_commits_excluded_and_counted_witness:
  "fold_commits_page (\<lambda>s. None)
     [JObj [(''sha'', JStr ''abc''), (''author'', JObj [(''login'', JStr ''octocat'')]),
            (''commit'', JObj [(''author'', JNull), (''message'', JStr ''fix'')])],
      JObj [(''sha'', JStr ''def''), (''author'', JObj [(''login'', JStr ''dependabot[bot]'')]),
            (''commit'', JObj [(''author'', JNull), (''message'', JStr ''bump'')])]] [] 0
   = (1, Inr [[(''SHA'', JStr ''abc''), (''AuthorLogin'', JStr ''octocat''),
               (''AuthorName'', JStr ''N/A''), (''AuthorEmail'', JStr ''N/A''),
               (''Date'', JStr ''N/A''), (''Message'', JStr ''fix'')]])
   \<and> commits_loop (\<lambda>s. None)
       [(0, Http None None 200 (Some (PArr
          [JObj [(''sha'', JStr ''abc''), (''author'', JObj [(''login'', JStr ''octocat'')]),
                 (''commit'', JObj [(''author'', JNull), (''message'', JStr ''fix'')])],
           JObj [(''sha'', JStr ''def''), (''author'', JObj [(''login'', JStr ''dependabot[bot]'')]),
                 (''commit'', JObj [(''author'', JNull), (''message'', JStr ''bump'')])]])))]
       initial_rateLimitInfo [] 1 0 []
     = \<lparr>quota = initial_rateLimitInfo,
        records = [[(''SHA'', JStr ''abc''), (''AuthorLogin'', JStr ''octocat''),
                    (''AuthorName'', JStr ''N/A''), (''AuthorEmail'', JStr ''N/A''),
                    (''Date'', JStr ''N/A''), (''Message'', JStr ''fix'')]],
        requested = [1], ending = Done, filteredCommitsCount = 1\<rparr>"
proof -
  let ?k = "JObj [(''sha'', JStr ''abc''), (''author'', JObj [(''login'', JStr ''octocat'')]),
            (''commit'', JObj [(''author'', JNull), (''message'', JStr ''fix'')])]"
  let ?b = "JObj [(''sha'', JStr ''def''), (''author'', JObj [(''login'', JStr ''dependabot[bot]'')]),
            (''commit'', JObj [(''author'', JNull), (''message'', JStr ''bump'')])]"
  let ?row = "[(''SHA'', JStr ''abc''), (''AuthorLogin'', JStr ''octocat''),
               (''AuthorName'', JStr ''N/A''), (''AuthorEmail'', JStr ''N/A''),
               (''Date'', JStr ''N/A''), (''Message'', JStr ''fix'')]"
  let ?dp = "\<lambda>s :: string. None :: int option"
  let ?resp = "Http None None 200 (Some (PArr [?k, ?b]))"
  have f: "fold_commits_page ?dp [?k, ?b] [] 0 = (1, Inr [?row])"
    by (simp add: fold_commits_page_def plain_commit_not_bot bot_commit_is_bot plain_commit_row)
  have s: "settled ?resp = Inr (PArr [?k, ?b])" by (simp add: settled_def Let_def)
  have q: "quota_after [(0, ?resp)] initial_rateLimitInfo = initial_rateLimitInfo"
    by (simp add: checkAndHandleRateLimits_def shouldPause_def initial_rateLimitInfo_def
          header_present_def Let_def)
  have l: "length [?k, ?b] < perPage" by (simp add: perPage_def)
  from bot_commits_excluded_and_counted
    [where resp = ?resp and xs = "[?k, ?b]" and dp = ?dp and acc = "[]" and n = 0 and n' = 1
       and acc' = "[?row]" and now = 0 and es = "[]" and rli = initial_rateLimitInfo
       and page = 1 and reqs = "[]"] s f
  have "commits_loop ?dp [(0, ?resp)] initial_rateLimitInfo [] 1 0 [] =
           (if length [?k, ?b] < perPage
            then \<lparr>quota = quota_after [(0, ?resp)] initial_rateLimitInfo, records = [?row],
                  requested = [] @ [1], ending = Done, filteredCommitsCount = 1\<rparr>
            else commits_loop ?dp [] (quota_after [(0, ?resp)] initial_rateLimitInfo) [?row] (1 + 1) 1
                   ([] @ [1]))"
    by blast
  then have "commits_loop ?dp [(0, ?resp)] initial_rateLimitInfo [] 1 0 [] =
      \<lparr>quota = initial_rateLimitInfo, records = [?row], requested = [1], ending = Done,
       filteredCommitsCount = 1\<rparr>"
    unfolding q using l by (simp del: commits_loop.simps)
  with f show ?thesis by blast
qed

text \<open>
  Claim C6, as stated, for every fetched commits page. When the fold throws, neither
  part holds: on the page \<^verbatim>\<open>[null, bot commit]\<close> the filter throws at the first
  element and the bot commit is never counted; and of two pages of 100 records each, the
  one that holds a commit whose \<^verbatim>\<open>commit.author\<close> has no date ends the harvest,
  while the other is followed by the request for page 2.
\<close>

theorem fold_exception_overrides_page_length:
  "fold_commits_page parse_nothing
     [JNull,
      JObj [(''sha'', JStr ''def''), (''author'', JObj [(''login'', JStr ''dependabot[bot]'')]),
            (''commit'', JObj [(''author'', JNull), (''message'', JStr ''bump'')])]] [] 0
     = (0, Inl TypeError)
   \<and> requested (fst (processAllCommits parse_nothing
      [(0, Http None None 200 (Some (PArr
          (JObj [(''sha'', JStr ''def''), (''author'', JObj [(''login'', JStr ''dependabot[bot]'')]),
                 (''commit'', JObj [(''author'', JNull), (''message'', JStr ''bump'')])]
           # JObj [(''sha'', JStr ''abc''), (''author'', JNull),
                   (''commit'',
                    JObj [(''author'',
                           JObj [(''name'', JStr ''J. Smith''), (''email'', JStr ''j@example.org'')]),
                          (''message'', JStr ''fix'')])]
           # replicate 98
               (JObj [(''sha'', JStr ''abc''), (''author'', JObj [(''login'', JStr ''octocat'')]),
                      (''commit'', JObj [(''author'', JNull), (''message'', JStr ''fix'')])]))))),
       (0, Http None None 200 (Some (PArr
          [JObj [(''sha'', JStr ''abc''), (''author'', JObj [(''login'', JStr ''octocat'')]),
                 (''commit'', JObj [(''author'', JNull), (''message'', JStr ''fix'')])]])))]
      True initial_rateLimitInfo)) = [1]
   \<and> requested (fst (processAllCommits parse_nothing
      [(0, Http None None 200 (Some (PArr
          (replicate 100
               (JObj [(''sha'', JStr ''abc''), (''author'', JObj [(''login'', JStr ''octocat'')]),
                      (''commit'', JObj [(''author'', JNull), (''message'', JStr ''fix'')])]))))),
       (0, Http None None 200 (Some (PArr
          [JObj [(''sha'', JStr ''abc''), (''author'', JObj [(''login'', JStr ''octocat'')]),
                 (''commit'', JObj [(''author'', JNull), (''message'', JStr ''fix'')])]])))]
      True initial_rateLimitInfo)) = [1, 2]"
proof -
  let ?b = "JObj [(''sha'', JStr ''def''), (''author'', JObj [(''login'', JStr ''dependabot[bot]'')]),
            (''commit'', JObj [(''author'', JNull), (''message'', JStr ''bump'')])]"
  let ?d = "JObj [(''sha'', JStr ''abc''), (''author'', JNull),
                 (''commit'',
                  JObj [(''author'',
                         JObj [(''name'', JStr ''J. Smith''), (''email'', JStr ''j@example.org'')]),
                        (''message'', JStr ''fix'')])]"
  let ?k = "JObj [(''sha'', JStr ''abc''), (''author'', JObj [(''login'', JStr ''octocat'')]),
                 (''commit'', JObj [(''author'', JNull), (''message'', JStr ''fix'')])]"
  let ?row = "[(''SHA'', JStr ''abc''), (''AuthorLogin'', JStr ''octocat''),
       (''AuthorName'', JStr ''N/A''), (''AuthorEmail'', JStr ''N/A''), (''Date'', JStr ''N/A''),
       (''Message'', JStr ''fix'')]"
  let ?xs = "?b # ?d # replicate 98 ?k"
  let ?ev = "(0::int, Http None None 200 (Some (PArr [?k])))"
  have n: "fold_commits_page parse_nothing [JNull, ?b] [] 0 = (0, Inl TypeError)"
    by (simp add: fold_commits_page_def is_bot_commit_def)
  have fb: "filter_bots ?xs 0 = (1, Inr (?d # replicate 98 ?k))"
    by (simp add: bot_commit_is_bot dateless_commit_not_bot
          filter_bots_replicate [OF plain_commit_not_bot])
  have mt: "map_throwing (commit_row parse_nothing) (?d # replicate 98 ?k) = Inl RangeError"
    by (simp add: dateless_commit_row)
  have f: "fold_commits_page parse_nothing ?xs [] 0 = (1, Inl RangeError)"
    unfolding fold_commits_page_def fb using mt by simp
  have a: "commits_loop parse_nothing [(0, Http None None 200 (Some (PArr ?xs))), ?ev]
             initial_rateLimitInfo [] 1 0 [] =
     \<lparr>quota = quota_after [(0, Http None None 200 (Some (PArr ?xs)))] initial_rateLimitInfo,
      records = [], requested = [1], ending = Threw RangeError, filteredCommitsCount = 1\<rparr>"
    unfolding commits_loop_Cons by (simp add: settled_Http_ok f)
  let ?pre = "[(0::int, Http None None 200 (Some (PArr (replicate 100 ?k))))]"
  have r100: "page_rows parse_nothing (replicate 100 ?k) = Inr (replicate 100 ?row)"
    by (rule page_rows_replicate [OF plain_commit_not_bot plain_commit_row])
  have h: "\<forall>e \<in> set ?pre. full_commits_page parse_nothing e"
    by (simp add: full_commits_page_def page_records_Http perPage_def r100)
  have p: "page_records ?ev = Some [?k]" by (rule page_records_Http)
  have s: "length [?k] < perPage" by (simp add: perPage_def)
  from commits_loop_short [OF p s, of parse_nothing "[]" "quota_after ?pre initial_rateLimitInfo"
      "rows_of parse_nothing ?pre" "1 + length ?pre" "excluded_of ?pre" "[1 ..< 1 + length ?pre]"]
  have "requested (commits_loop parse_nothing (?pre @ ?ev # []) initial_rateLimitInfo [] 1 0 [])
        = [1 ..< 1 + length ?pre] @ [1 + length ?pre]"
    unfolding commits_run_to_last [OF h] by blast
  then have b: "requested (commits_loop parse_nothing (?pre @ [?ev]) initial_rateLimitInfo [] 1 0 [])
        = [1, 2]"
    by (simp add: upt_rec)
  from n a b show ?thesis unfolding fst_processAllCommits by simp
qed

text \<open>
  Claim C7, amended. The contributors accumulator holds as many records as the
  successfully fetched pages carried. For commits, in every run that does not end by an
  exception of a fold (a TypeError or RangeError), the counter is the number of bot
  records in the successfully fetched pages and the accumulator holds the number of
  raw records observed minus that counter.
\<close>

theorem accumulator_size_when_no_fold_throws:
  "length (records (fst (processAllContributors es w rli))) =
     observed (take (length (requested (fst (processAllContributors es w rli)))) es)
   \<and> (ending (fst (processAllCommits dp es' w rli)) \<noteq> Threw TypeError
      \<and> ending (fst (processAllCommits dp es' w rli)) \<noteq> Threw RangeError \<longrightarrow>
        filteredCommitsCount (fst (processAllCommits dp es' w rli)) =
          excluded_of (take (length (requested (fst (processAllCommits dp es' w rli)))) es')
      \<and> length (records (fst (processAllCommits dp es' w rli))) =
          observed (take (length (requested (fst (processAllCommits dp es' w rli)))) es')
          - filteredCommitsCount (fst (processAllCommits dp es' w rli)))"
proof -
  have a: "length (records (fst (processAllContributors es w rli))) =
     observed (take (length (requested (fst (processAllContributors es w rli)))) es)"
    unfolding fst_processAllContributors
    using contributors_loop_count [of es rli "[]" 1 "[]"] by simp
  have b: "filteredCommitsCount (fst (processAllCommits dp es' w rli)) =
          excluded_of (take (length (requested (fst (processAllCommits dp es' w rli)))) es')
      \<and> length (records (fst (processAllCommits dp es' w rli))) =
          observed (take (length (requested (fst (processAllCommits dp es' w rli)))) es')
          - filteredCommitsCount (fst (processAllCommits dp es' w rli))"
    if e1: "ending (fst (processAllCommits dp es' w rli)) \<noteq> Threw TypeError"
      and e2: "ending (fst (processAllCommits dp es' w rli)) \<noteq> Threw RangeError"
  proof -
    let ?r = "commits_loop dp es' rli [] 1 0 []"
    from commits_loop_count
      [OF e1 [unfolded fst_processAllCommits] e2 [unfolded fst_processAllCommits]]
    have c1: "filteredCommitsCount ?r = excluded_of (take (length (requested ?r)) es')"
      and c2: "length (records ?r) + filteredCommitsCount ?r
               = observed (take (length (requested ?r)) es')"
      by simp_all
    from c2 have "length (records ?r)
               = observed (take (length (requested ?r)) es') - filteredCommitsCount ?r"
      by arith
    with c1 show ?thesis unfolding fst_processAllCommits by blast
  qed
  from a b show ?thesis by blast
qed

lemma quota_unchanged_without_headers:
  "quota_after [(now, Http None None st body)] initial_rateLimitInfo = initial_rateLimitInfo"
  by (simp add: checkAndHandleRateLimits_def shouldPause_def initial_rateLimitInfo_def
        header_present_def Let_def)

text \<open>One page of two contributors; one page of two commits, one of them by the bot.\<close>

theorem accumulator_size_when_no_fold_throws_witness:
  "length (records (fst (processAllContributors
      [(0, Http None None 200 (Some (PArr
          [JObj [(''login'', JStr ''octocat'')], JObj [(''login'', JStr ''hubot'')]])))]
      True initial_rateLimitInfo))) = 2
   \<and> filteredCommitsCount (fst (processAllCommits (\<lambda>s. None)
       [(0, Http None None 200 (Some (PArr
          [JObj [(''sha'', JStr ''abc''), (''author'', JObj [(''login'', JStr ''octocat'')]),
                 (''commit'', JObj [(''author'', JNull), (''message'', JStr ''fix'')])],
           JObj [(''sha'', JStr ''def''), (''author'', JObj [(''login'', JStr ''dependabot[bot]'')]),
                 (''commit'', JObj [(''author'', JNull), (''message'', JStr ''bump'')])]])))]
       True initial_rateLimitInfo)) = 1
   \<and> length (records (fst (processAllCommits (\<lambda>s. None)
       [(0, Http None None 200 (Some (PArr
          [JObj [(''sha'', JStr ''abc''), (''author'', JObj [(''login'', JStr ''octocat'')]),
                 (''commit'', JObj [(''author'', JNull), (''message'', JStr ''fix'')])],
           JObj [(''sha'', JStr ''def''), (''author'', JObj [(''login'', JStr ''dependabot[bot]'')]),
                 (''commit'', JObj [(''author'', JNull), (''message'', JStr ''bump'')])]])))]
       True initial_rateLimitInfo))) = 1"
proof -
  let ?c = "JObj [(''login'', JStr ''octocat'')]"
  let ?h = "JObj [(''login'', JStr ''hubot'')]"
  let ?k = "JObj [(''sha'', JStr ''abc''), (''author'', JObj [(''login'', JStr ''octocat'')]),
            (''commit'', JObj [(''author'', JNull), (''message'', JStr ''fix'')])]"
  let ?b = "JObj [(''sha'', JStr ''def''), (''author'', JObj [(''login'', JStr ''dependabot[bot]'')]),
            (''commit'', JObj [(''author'', JNull), (''message'', JStr ''bump'')])]"
  let ?row = "[(''SHA'', JStr ''abc''), (''AuthorLogin'', JStr ''octocat''),
               (''AuthorName'', JStr ''N/A''), (''AuthorEmail'', JStr ''N/A''),
               (''Date'', JStr ''N/A''), (''Message'', JStr ''fix'')]"
  let ?dp = "\<lambda>s :: string. None :: int option"
  let ?es = "[(0::int, Http None None 200 (Some (PArr [?c, ?h])))]"
  let ?es' = "[(0::int, Http None None 200 (Some (PArr [?k, ?b])))]"
  have rc: "requested (fst (processAllContributors ?es True initial_rateLimitInfo)) = [1]"
    unfolding fst_processAllContributors
    by (simp add: snd_fetch settled_Http_ok perPage_def Let_def)
  have f: "fold_commits_page ?dp [?k, ?b] [] 0 = (1, Inr [?row])"
    by (simp add: fold_commits_page_def plain_commit_not_bot bot_commit_is_bot plain_commit_row)
  have rk: "requested (fst (processAllCommits ?dp ?es' True initial_rateLimitInfo)) = [1]"
    "ending (fst (processAllCommits ?dp ?es' True initial_rateLimitInfo)) = Done"
    unfolding fst_processAllCommits commits_loop_Cons
    by (simp_all add: settled_Http_ok f perPage_def)
  have o: "observed (take (length [1::nat]) ?es) = 2" "observed (take (length [1::nat]) ?es') = 2"
    by (simp_all add: observed_def page_records_Http)
  have x: "excluded_of (take (length [1::nat]) ?es') = 1"
    by (simp add: excluded_of_def pages_of_def page_records_Http excluded_in_def
          plain_commit_not_bot bot_commit_is_bot)
  have e: "ending (fst (processAllCommits ?dp ?es' True initial_rateLimitInfo)) \<noteq> Threw TypeError"
    "ending (fst (processAllCommits ?dp ?es' True initial_rateLimitInfo)) \<noteq> Threw RangeError"
    using rk(2) by simp_all
  from accumulator_size_when_no_fold_throws
    [where es = ?es and w = True and rli = initial_rateLimitInfo and dp = ?dp and es' = ?es'] e
  have "length (records (fst (processAllContributors ?es True initial_rateLimitInfo))) =
     observed (take (length (requested (fst (processAllContributors ?es True initial_rateLimitInfo)))) ?es)
   \<and> filteredCommitsCount (fst (processAllCommits ?dp ?es' True initial_rateLimitInfo)) =
          excluded_of (take (length (requested (fst (processAllCommits ?dp ?es' True initial_rateLimitInfo)))) ?es')
      \<and> length (records (fst (processAllCommits ?dp ?es' True initial_rateLimitInfo))) =
          observed (take (length (requested (fst (processAllCommits ?dp ?es' True initial_rateLimitInfo)))) ?es')
          - filteredCommitsCount (fst (processAllCommits ?dp ?es' True initial_rateLimitInfo))"
    by blast
  then show ?thesis unfolding rc rk(1) o x by simp
qed

text \<open>
  Claim C7, as stated, for every run that terminates: a commits run whose only page
  holds one record with a \<^verbatim>\<open>commit.author\<close> that has no date ends in the \<^verbatim>\<open>catch\<close>
  with an empty accumulator, although one raw record was observed and none excluded.
\<close>

theorem fold_exception_loses_observed_records:
  "ending (fst (processAllCommits parse_nothing
      [(0, Http None None 200 (Some (PArr
          [JObj [(''sha'', JStr ''abc''), (''author'', JNull),
                 (''commit'',
                  JObj [(''author'',
                         JObj [(''name'', JStr ''J. Smith''), (''email'', JStr ''j@example.org'')]),
                        (''message'', JStr ''fix'')])]])))]
      True initial_rateLimitInfo)) = Threw RangeError
   \<and> snd (processAllCommits parse_nothing
      [(0, Http None None 200 (Some (PArr
          [JObj [(''sha'', JStr ''abc''), (''author'', JNull),
                 (''commit'',
                  JObj [(''author'',
                         JObj [(''name'', JStr ''J. Smith''), (''email'', JStr ''j@example.org'')]),
                        (''message'', JStr ''fix'')])]])))]
      True initial_rateLimitInfo) = ErrorReported RangeError
   \<and> length (records (fst (processAllCommits parse_nothing
      [(0, Http None None 200 (Some (PArr
          [JObj [(''sha'', JStr ''abc''), (''author'', JNull),
                 (''commit'',
                  JObj [(''author'',
                         JObj [(''name'', JStr ''J. Smith''), (''email'', JStr ''j@example.org'')]),
                        (''message'', JStr ''fix'')])]])))]
      True initial_rateLimitInfo))) = 0
   \<and> filteredCommitsCount (fst (processAllCommits parse_nothing
      [(0, Http None None 200 (Some (PArr
          [JObj [(''sha'', JStr ''abc''), (''author'', JNull),
                 (''commit'',
                  JObj [(''author'',
                         JObj [(''name'', JStr ''J. Smith''), (''email'', JStr ''j@example.org'')]),
                        (''message'', JStr ''fix'')])]])))]
      True initial_rateLimitInfo)) = 0
   \<and> observed
      [(0, Http None None 200 (Some (PArr
          [JObj [(''sha'', JStr ''abc''), (''author'', JNull),
                 (''commit'',
                  JObj [(''author'',
                         JObj [(''name'', JStr ''J. Smith''), (''email'', JStr ''j@example.org'')]),
                        (''message'', JStr ''fix'')])]])))] = 1
   \<and> length (records (fst (processAllCommits parse_nothing
      [(0, Http None None 200 (Some (PArr
          [JObj [(''sha'', JStr ''abc''), (''author'', JNull),
                 (''commit'',
                  JObj [(''author'',
                         JObj [(''name'', JStr ''J. Smith''), (''email'', JStr ''j@example.org'')]),
                        (''message'', JStr ''fix'')])]])))]
      True initial_rateLimitInfo)))
     \<noteq> observed
      [(0, Http None None 200 (Some (PArr
          [JObj [(''sha'', JStr ''abc''), (''author'', JNull),
                 (''commit'',
                  JObj [(''author'',
                         JObj [(''name'', JStr ''J. Smith''), (''email'', JStr ''j@example.org'')]),
                        (''message'', JStr ''fix'')])]])))]
       - filteredCommitsCount (fst (processAllCommits parse_nothing
      [(0, Http None None 200 (Some (PArr
          [JObj [(''sha'', JStr ''abc''), (''author'', JNull),
                 (''commit'',
                  JObj [(''author'',
                         JObj [(''name'', JStr ''J. Smith''), (''email'', JStr ''j@example.org'')]),
                        (''message'', JStr ''fix'')])]])))]
      True initial_rateLimitInfo))"
proof -
  let ?d = "JObj [(''sha'', JStr ''abc''), (''author'', JNull),
                 (''commit'',
                  JObj [(''author'',
                         JObj [(''name'', JStr ''J. Smith''), (''email'', JStr ''j@example.org'')]),
                        (''message'', JStr ''fix'')])]"
  let ?es = "[(0::int, Http None None 200 (Some (PArr [?d])))]"
  have b: "is_bot_commit ?d = Inr False" by (simp add: is_bot_commit_def)
  have r: "commit_row parse_nothing ?d = Inl RangeError"
    by (simp add: commit_row_def commit_Date_def commit_AuthorLogin_def commit_author_field_def
        commit_Message_def toISOString_def)
  have f: "fold_commits_page parse_nothing [?d] [] 0 = (0, Inl RangeError)"
    by (simp add: fold_commits_page_def b r)
  have l: "commits_loop parse_nothing ?es initial_rateLimitInfo [] 1 0 [] =
     \<lparr>quota = quota_after ?es initial_rateLimitInfo, records = [], requested = [1],
      ending = Threw RangeError, filteredCommitsCount = 0\<rparr>"
    unfolding commits_loop_Cons by (simp add: settled_Http_ok f)
  have o: "observed ?es = 1" by (simp add: observed_def page_records_Http)
  show ?thesis unfolding fst_processAllCommits snd_processAllCommits l o by simp
qed

text \<open>
  A harvest whose loop is left by \<^verbatim>\<open>break\<close> with an empty accumulator reports that
  nothing was processed and writes no file. That is the case when the first page is
  empty (or \<^verbatim>\<open>null\<close>), and for commits when every record of the fetched pages is
  filtered out, all of them then being counted.
\<close>

lemma empty_harvest_after_break:
  "(ending (fst (processAllContributors es w rli)) = Done
      \<and> records (fst (processAllContributors es w rli)) = [] \<longrightarrow>
        snd (processAllContributors es w rli) = NothingProcessed)
   \<and> (ending (fst (processAllCommits dp es' w rli)) = Done
      \<and> records (fst (processAllCommits dp es' w rli)) = [] \<longrightarrow>
        snd (processAllCommits dp es' w rli) = NothingProcessed)
   \<and> (page_records ev = Some [] \<or> settled (snd ev) = Inr PNull \<longrightarrow>
        snd (processAllContributors (ev # rest) w rli) = NothingProcessed
      \<and> requested (fst (processAllContributors (ev # rest) w rli)) = [1]
      \<and> snd (processAllCommits dp (ev # rest) w rli) = NothingProcessed
      \<and> requested (fst (processAllCommits dp (ev # rest) w rli)) = [1])
   \<and> (ending (fst (processAllCommits dp es' w rli)) = Done
      \<and> (\<forall>c \<in> set (pages_of (take (length (requested (fst (processAllCommits dp es' w rli)))) es')).
            is_bot_commit c = Inr True) \<longrightarrow>
        snd (processAllCommits dp es' w rli) = NothingProcessed
      \<and> filteredCommitsCount (fst (processAllCommits dp es' w rli))
          = observed (take (length (requested (fst (processAllCommits dp es' w rli)))) es'))"
proof -
  have a: "snd (processAllContributors es w rli) = NothingProcessed"
    if "ending (fst (processAllContributors es w rli)) = Done"
      and "records (fst (processAllContributors es w rli)) = []"
    using that unfolding fst_processAllContributors snd_processAllContributors
    by (simp add: contributors_export_def)
  have b: "snd (processAllCommits dp es' w rli) = NothingProcessed"
    if "ending (fst (processAllCommits dp es' w rli)) = Done"
      and "records (fst (processAllCommits dp es' w rli)) = []"
    using that unfolding fst_processAllCommits snd_processAllCommits
    by (simp add: commits_export_def)
  have c: "snd (processAllContributors (ev # rest) w rli) = NothingProcessed
      \<and> requested (fst (processAllContributors (ev # rest) w rli)) = [1]
      \<and> snd (processAllCommits dp (ev # rest) w rli) = NothingProcessed
      \<and> requested (fst (processAllCommits dp (ev # rest) w rli)) = [1]"
    if e: "page_records ev = Some [] \<or> settled (snd ev) = Inr PNull"
  proof -
    obtain now resp where ev: "ev = (now, resp)" by (cases ev)
    from e ev have s: "settled resp = Inr (PArr []) \<or> settled resp = Inr PNull"
      using page_records_settled [of ev "[]"] by auto
    then have 1: "contributors_loop ((now, resp) # rest) rli [] 1 [] =
        \<lparr>quota = quota_after [(now, resp)] rli, records = [], requested = [1], ending = Done\<rparr>"
      by (auto simp: snd_fetch Let_def)
    from s have 2: "commits_loop dp ((now, resp) # rest) rli [] 1 0 [] =
        \<lparr>quota = quota_after [(now, resp)] rli, records = [], requested = [1], ending = Done,
         filteredCommitsCount = 0\<rparr>"
      unfolding commits_loop_Cons by auto
    show ?thesis
      unfolding fst_processAllContributors snd_processAllContributors
        fst_processAllCommits snd_processAllCommits ev 1 2
      by (simp add: contributors_export_def commits_export_def)
  qed
  have d: "snd (processAllCommits dp es' w rli) = NothingProcessed
      \<and> filteredCommitsCount (fst (processAllCommits dp es' w rli))
          = observed (take (length (requested (fst (processAllCommits dp es' w rli)))) es')"
    if e: "ending (fst (processAllCommits dp es' w rli)) = Done"
      and all: "\<forall>c \<in> set (pages_of (take (length (requested (fst (processAllCommits dp es' w rli)))) es')).
            is_bot_commit c = Inr True"
  proof -
    let ?r = "commits_loop dp es' rli [] 1 0 []"
    let ?seen = "take (length (requested ?r)) es'"
    from e have e1: "ending ?r \<noteq> Threw TypeError" and e2: "ending ?r \<noteq> Threw RangeError"
      unfolding fst_processAllCommits by simp_all
    from commits_loop_count [OF e1 e2]
    have c1: "filteredCommitsCount ?r = excluded_of ?seen"
      and c2: "length (records ?r) + filteredCommitsCount ?r = observed ?seen"
      by simp_all
    from all have "excluded_of ?seen = length (pages_of ?seen)"
      unfolding fst_processAllCommits excluded_of_def by (rule excluded_in_all)
    then have x: "excluded_of ?seen = observed ?seen" by (simp add: observed_pages_of)
    from c1 c2 x have "records ?r = []" by simp
    with e c1 x show ?thesis
      unfolding fst_processAllCommits snd_processAllCommits
      by (simp add: commits_export_def)
  qed
  from a b c d show ?thesis by blast
qed

text \<open>
  Claim C9. A harvest whose accumulator ends empty because all records were filtered out
  should report that nothing was processed, as information, and write no file. When the
  loop is not left by \<^verbatim>\<open>break\<close> it does not: after a page of 100 bot commits, all
  of them filtered out and counted, a failed fetch takes the run to the \<^verbatim>\<open>catch\<close>,
  and the outcome of the empty harvest is the error report. The cause is the one of
  claim C2: a failed fetch does not reach the code after the loop.
\<close>

theorem all_filtered_then_failed_fetch_reports_error:
  "records (fst (processAllCommits parse_nothing
      [(0, Http None None 200 (Some (PArr (replicate 100
          (JObj [(''sha'', JStr ''def''), (''author'', JObj [(''login'', JStr ''dependabot[bot]'')]),
                 (''commit'', JObj [(''author'', JNull), (''message'', JStr ''bump'')])]))))),
       (0, NetError False)] True initial_rateLimitInfo)) = []
   \<and> filteredCommitsCount (fst (processAllCommits parse_nothing
      [(0, Http None None 200 (Some (PArr (replicate 100
          (JObj [(''sha'', JStr ''def''), (''author'', JObj [(''login'', JStr ''dependabot[bot]'')]),
                 (''commit'', JObj [(''author'', JNull), (''message'', JStr ''bump'')])]))))),
       (0, NetError False)] True initial_rateLimitInfo)) = 100
   \<and> snd (processAllCommits parse_nothing
      [(0, Http None None 200 (Some (PArr (replicate 100
          (JObj [(''sha'', JStr ''def''), (''author'', JObj [(''login'', JStr ''dependabot[bot]'')]),
                 (''commit'', JObj [(''author'', JNull), (''message'', JStr ''bump'')])]))))),
       (0, NetError False)] True initial_rateLimitInfo) = ErrorReported HttpsRequestFailed"
proof -
  let ?b = "JObj [(''sha'', JStr ''def''), (''author'', JObj [(''login'', JStr ''dependabot[bot]'')]),
            (''commit'', JObj [(''author'', JNull), (''message'', JStr ''bump'')])]"
  let ?pre = "[(0::int, Http None None 200 (Some (PArr (replicate 100 ?b))))]"
  let ?ev = "(0::int, NetError False)"
  have r: "page_rows parse_nothing (replicate 100 ?b) = Inr []"
    by (rule page_rows_replicate_bot [OF bot_commit_is_bot])
  have h: "\<forall>e \<in> set ?pre. full_commits_page parse_nothing e"
    by (simp add: full_commits_page_def page_records_Http perPage_def r)
  have w: "rows_of parse_nothing ?pre = []" by (simp add: rows_of_def page_records_Http r)
  have x: "excluded_of ?pre = 100"
    by (simp add: excluded_of_def pages_of_def page_records_Http
          excluded_in_replicate_bot [OF bot_commit_is_bot])
  have s: "settled (NetError False) = Inl HttpsRequestFailed" by (simp add: settled_NetError)
  have "commits_loop parse_nothing (?pre @ ?ev # []) initial_rateLimitInfo [] 1 0 [] =
     \<lparr>quota = quota_after [?ev] (quota_after ?pre initial_rateLimitInfo), records = [],
      requested = [1 ..< 1 + length ?pre] @ [1 + length ?pre],
      ending = Threw HttpsRequestFailed, filteredCommitsCount = 100\<rparr>"
    unfolding commits_run_to_last [OF h] commits_loop_failed [OF s] w x ..
  then show ?thesis unfolding fst_processAllCommits snd_processAllCommits by simp
qed

subsection \<open>CSV quoting and round trip\<close>

lemma special_chars_distinct:
  "comma \<noteq> dquote" "comma \<noteq> newline" "comma \<noteq> carriage_return" "dquote \<noteq> newline"
  "dquote \<noteq> carriage_return" "newline \<noteq> carriage_return"
  "dquote \<noteq> comma" "newline \<noteq> comma" "carriage_return \<noteq> comma" "newline \<noteq> dquote"
  "carriage_return \<noteq> dquote" "carriage_return \<noteq> newline"
  by (simp_all add: comma_def dquote_def newline_def carriage_return_def)

lemma escapeCsvValue_JStr:
  "escapeCsvValue (JStr s) = (if needs_quoting s then [dquote] @ double_quotes s @ [dquote] else s)"
  by (simp add: escapeCsvValue_def needs_quoting_def)

lemma double_quotes_concat:
  "double_quotes s = concat (map (\<lambda>c. if c = dquote then [dquote, dquote] else [c]) s)"
  by (induction s) simp_all

lemma read_quoted_body:
  "csv_read_from InQuoted cur flds recs (double_quotes s @ dquote # rest) =
   csv_read_from QuoteSeen (cur @ s) flds recs rest"
  by (induction s arbitrary: cur) simp_all

lemma read_unquoted_body:
  "\<forall>c \<in> set s. c \<noteq> comma \<and> c \<noteq> dquote \<and> c \<noteq> newline \<and> c \<noteq> carriage_return \<Longrightarrow>
   csv_read_from InUnquoted cur flds recs (s @ rest) =
   csv_read_from InUnquoted (cur @ s) flds recs rest"
  by (induction s arbitrary: cur) simp_all

lemma read_plain_field_then_comma:
  assumes "\<forall>c \<in> set s. c \<noteq> comma \<and> c \<noteq> dquote \<and> c \<noteq> newline \<and> c \<noteq> carriage_return"
  shows "csv_read_from FieldStart [] flds recs (s @ comma # rest) =
         csv_read_from FieldStart [] (flds @ [s]) recs rest"
proof (cases s)
  case Nil
  then show ?thesis by (simp add: special_chars_distinct)
next
  case (Cons c cs)
  with assms have c: "c \<noteq> comma" "c \<noteq> dquote" "c \<noteq> newline" "c \<noteq> carriage_return"
    and cs: "\<forall>c \<in> set cs. c \<noteq> comma \<and> c \<noteq> dquote \<and> c \<noteq> newline \<and> c \<noteq> carriage_return"
    by simp_all
  from c Cons read_unquoted_body [OF cs, of "[c]" flds recs "comma # rest"]
  show ?thesis by (simp add: special_chars_distinct)
qed

lemma read_plain_field_at_end:
  assumes "\<forall>c \<in> set s. c \<noteq> comma \<and> c \<noteq> dquote \<and> c \<noteq> newline \<and> c \<noteq> carriage_return"
  shows "csv_read_from FieldStart [] flds [] s = Some [flds @ [s]]"
proof (cases s)
  case Nil
  then show ?thesis by simp
next
  case (Cons c cs)
  with assms have c: "c \<noteq> comma" "c \<noteq> dquote" "c \<noteq> newline" "c \<noteq> carriage_return"
    and cs: "\<forall>c \<in> set cs. c \<noteq> comma \<and> c \<noteq> dquote \<and> c \<noteq> newline \<and> c \<noteq> carriage_return"
    by simp_all
  from c Cons read_unquoted_body [OF cs, of "[c]" flds "[]" "[]"]
  show ?thesis by simp
qed

lemma plain_chars: "\<not> needs_quoting s \<Longrightarrow> carriage_return \<notin> set s \<Longrightarrow>
   \<forall>c \<in> set s. c \<noteq> comma \<and> c \<noteq> dquote \<and> c \<noteq> newline \<and> c \<noteq> carriage_return"
  by (auto simp: needs_quoting_def)

lemma read_escaped_then_comma:
  assumes "field_ok s"
  shows "csv_read_from FieldStart [] flds recs (escapeCsvValue (JStr s) @ comma # rest) =
         csv_read_from FieldStart [] (flds @ [s]) recs rest"
proof (cases "needs_quoting s")
  case True
  then show ?thesis
    using read_quoted_body [of "[]" flds recs s "comma # rest"]
    by (simp add: escapeCsvValue_JStr special_chars_distinct)
next
  case False
  with assms have "carriage_return \<notin> set s" by (simp add: field_ok_def)
  from read_plain_field_then_comma [OF plain_chars [OF False this]] False
  show ?thesis by (simp add: escapeCsvValue_JStr)
qed

lemma read_escaped_at_end:
  assumes "field_ok s"
  shows "csv_read_from FieldStart [] flds [] (escapeCsvValue (JStr s)) = Some [flds @ [s]]"
proof (cases "needs_quoting s")
  case True
  then show ?thesis
    using read_quoted_body [of "[]" flds "[]" s "[]"]
    by (simp add: escapeCsvValue_JStr)
next
  case False
  with assms have "carriage_return \<notin> set s" by (simp add: field_ok_def)
  from read_plain_field_at_end [OF plain_chars [OF False this]] False
  show ?thesis by (simp add: escapeCsvValue_JStr)
qed

lemma read_escaped_row:
  "fs \<noteq> [] \<Longrightarrow> \<forall>f \<in> set fs. field_ok f \<Longrightarrow>
   csv_read_from FieldStart [] flds [] (join [comma] (map (\<lambda>f. escapeCsvValue (JStr f)) fs))
   = Some [flds @ fs]"
proof (induction fs arbitrary: flds)
  case Nil
  then show ?case by simp
next
  case (Cons f fs)
  show ?case
  proof (cases fs)
    case Nil
    with Cons.prems show ?thesis by (simp add: read_escaped_at_end)
  next
    case (Cons g gs)
    from Cons.prems have ok: "field_ok f" and rest: "\<forall>f \<in> set fs. field_ok f" by simp_all
    have ne: "fs \<noteq> []" using Cons by simp
    have "join [comma] (map (\<lambda>f. escapeCsvValue (JStr f)) (f # fs))
          = escapeCsvValue (JStr f) @ comma # join [comma] (map (\<lambda>f. escapeCsvValue (JStr f)) fs)"
      using Cons by simp
    then show ?thesis
      using read_escaped_then_comma [OF ok] Cons.IH [OF ne rest, of "flds @ [f]"] by simp
  qed
qed

text \<open>
  Claim C8. For every string, escapeCsvValue returns the string between double quotes,
  each embedded double quote doubled, when the string contains a comma, a double quote
  or a line feed, and the string itself otherwise. Consequently the reader gets every
  field that contains a comma, a quote and a line feed back exactly, alone and inside a
  row of fields joined by commas.
\<close>

theorem escapeCsvValue_quotes_and_round_trips:
  "escapeCsvValue (JStr s) =
     (if comma \<in> set s \<or> dquote \<in> set s \<or> newline \<in> set s
      then [dquote] @ concat (map (\<lambda>c. if c = dquote then [dquote, dquote] else [c]) s) @ [dquote]
      else s)
   \<and> (comma \<in> set s \<and> dquote \<in> set s \<and> newline \<in> set s \<longrightarrow>
        csv_read (escapeCsvValue (JStr s)) = Some [[s]])
   \<and> (fs \<noteq> []
        \<and> (\<forall>f \<in> set fs. comma \<in> set f \<or> dquote \<in> set f \<or> newline \<in> set f
                          \<or> carriage_return \<notin> set f) \<longrightarrow>
        csv_read (join [comma] (map (\<lambda>f. escapeCsvValue (JStr f)) fs)) = Some [fs])"
proof -
  have a: "escapeCsvValue (JStr s) =
     (if comma \<in> set s \<or> dquote \<in> set s \<or> newline \<in> set s
      then [dquote] @ concat (map (\<lambda>c. if c = dquote then [dquote, dquote] else [c]) s) @ [dquote]
      else s)"
    unfolding escapeCsvValue_JStr needs_quoting_def double_quotes_concat by auto
  have b: "csv_read (escapeCsvValue (JStr s)) = Some [[s]]"
    if "comma \<in> set s \<and> dquote \<in> set s \<and> newline \<in> set s"
  proof -
    from that have "field_ok s" by (simp add: field_ok_def needs_quoting_def)
    from read_escaped_at_end [OF this, of "[]"] show ?thesis by (simp add: csv_read_def)
  qed
  have c: "csv_read (join [comma] (map (\<lambda>f. escapeCsvValue (JStr f)) fs)) = Some [fs]"
    if ne: "fs \<noteq> []"
      and ok: "\<forall>f \<in> set fs. comma \<in> set f \<or> dquote \<in> set f \<or> newline \<in> set f
                          \<or> carriage_return \<notin> set f"
  proof -
    from ok have "\<forall>f \<in> set fs. field_ok f" by (auto simp: field_ok_def needs_quoting_def)
    from read_escaped_row [OF ne this, of "[]"] show ?thesis by (simp add: csv_read_def)
  qed
  from a b c show ?thesis by blast
qed

text \<open>The field \<^verbatim>\<open>a,"\<close> followed by a line feed and \<^verbatim>\<open>b\<close>, alone and between two plain fields.\<close>

theorem escapeCsvValue_quotes_and_round_trips_witness:
  "escapeCsvValue (JStr [CHR ''a'', comma, dquote, newline, CHR ''b''])
     = [dquote, CHR ''a'', comma, dquote, dquote, newline, CHR ''b'', dquote]
   \<and> csv_read [dquote, CHR ''a'', comma, dquote, dquote, newline, CHR ''b'', dquote]
     = Some [[[CHR ''a'', comma, dquote, newline, CHR ''b'']]]
   \<and> csv_read (join [comma] (map (\<lambda>f. escapeCsvValue (JStr f))
        [''x'', [CHR ''a'', comma, dquote, newline, CHR ''b''], ''y'']))
     = Some [[''x'', [CHR ''a'', comma, dquote, newline, CHR ''b''], ''y'']]"
proof -
  let ?s = "[CHR ''a'', comma, dquote, newline, CHR ''b'']"
  let ?fs = "[''x'', ?s, ''y'']"
  have h1: "comma \<in> set ?s \<and> dquote \<in> set ?s \<and> newline \<in> set ?s" by simp
  have h2: "?fs \<noteq> [] \<and> (\<forall>f \<in> set ?fs. comma \<in> set f \<or> dquote \<in> set f \<or> newline \<in> set f
                          \<or> carriage_return \<notin> set f)"
    by (simp add: carriage_return_def)
  have e: "(if comma \<in> set ?s \<or> dquote \<in> set ?s \<or> newline \<in> set ?s
      then [dquote] @ concat (map (\<lambda>c. if c = dquote then [dquote, dquote] else [c]) ?s) @ [dquote]
      else ?s) = [dquote, CHR ''a'', comma, dquote, dquote, newline, CHR ''b'', dquote]"
    by (simp add: comma_def dquote_def newline_def)
  from escapeCsvValue_quotes_and_round_trips [of ?s ?fs] h1 h2
  have "escapeCsvValue (JStr ?s) =
     (if comma \<in> set ?s \<or> dquote \<in> set ?s \<or> newline \<in> set ?s
      then [dquote] @ concat (map (\<lambda>c. if c = dquote then [dquote, dquote] else [c]) ?s) @ [dquote]
      else ?s)
   \<and> csv_read (escapeCsvValue (JStr ?s)) = Some [[?s]]
   \<and> csv_read (join [comma] (map (\<lambda>f. escapeCsvValue (JStr f)) ?fs)) = Some [?fs]"
    by blast
  then have w1: "escapeCsvValue (JStr ?s) =
     (if comma \<in> set ?s \<or> dquote \<in> set ?s \<or> newline \<in> set ?s
      then [dquote] @ concat (map (\<lambda>c. if c = dquote then [dquote, dquote] else [c]) ?s) @ [dquote]
      else ?s)"
    and w2: "csv_read (escapeCsvValue (JStr ?s)) = Some [[?s]]"
    and w3: "csv_read (join [comma] (map (\<lambda>f. escapeCsvValue (JStr f)) ?fs)) = Some [?fs]"
    by blast+
  from w1 have E: "escapeCsvValue (JStr ?s)
      = [dquote, CHR ''a'', comma, dquote, dquote, newline, CHR ''b'', dquote]"
    unfolding e .
  from w2 have R: "csv_read [dquote, CHR ''a'', comma, dquote, dquote, newline, CHR ''b'', dquote]
      = Some [[?s]]"
    unfolding E .
  from E R w3 show ?thesis by blast
qed

end
